(* ===== verification/Prelude.thy ===== *)
theory Prelude
  imports Main "HOL-Library.Multiset" "HOL-Library.Code_Target_Numeral"
begin

text \<open>
  Shared vocabulary of the development: the rule collections the component theories
  feed, the notion of a list in which every element occurs exactly twice (the pairing
  of a memory board), and generic facts on lists, counts and element-wise updates that
  the board and system proofs use.
\<close>

named_theorems board_simps
  \<open>evaluation rules for the board operations, used by the invariant proofs\<close>

named_theorems inv_defs
  \<open>the conjuncts of the system invariant, unfolded together\<close>

section \<open>Element-wise updates\<close>

text \<open>
  The engine updates cards with \<^verbatim>\<open>cards.map(c => cond ? {...c, f} : c)\<close>; this is
  \<open>map_where P f\<close>.
\<close>

definition map_where :: "('a \<Rightarrow> bool) \<Rightarrow> ('a \<Rightarrow> 'a) \<Rightarrow> 'a list \<Rightarrow> 'a list" where
  "map_where P f xs = map (\<lambda>x. if P x then f x else x) xs"

lemma length_map_where [simp]: "length (map_where P f xs) = length xs"
  by (simp add: map_where_def)

lemma map_where_Nil [simp]: "map_where P f [] = []"
  by (simp add: map_where_def)

lemma map_where_eq_Nil [simp]: "map_where P f xs = [] \<longleftrightarrow> xs = []"
  by (simp add: map_where_def)

lemma map_where_map_same:
  "(\<And>x. g (f x) = g x) \<Longrightarrow> map g (map_where P f xs) = map g xs"
  by (induction xs) (auto simp: map_where_def)

lemma set_map_where:
  "y \<in> set (map_where P f xs) \<longleftrightarrow> (\<exists>x\<in>set xs. y = (if P x then f x else x))"
  by (auto simp: map_where_def)

lemma nth_map_where [simp]:
  "i < length xs \<Longrightarrow> map_where P f xs ! i = (if P (xs ! i) then f (xs ! i) else xs ! i)"
  by (simp add: map_where_def)

lemma map_where_id:
  "(\<And>x. x \<in> set xs \<Longrightarrow> \<not> P x) \<Longrightarrow> map_where P f xs = xs"
  by (induction xs) (auto simp: map_where_def)

section \<open>Counting and pairing\<close>

lemma count_list_map_filter:
  "count_list (map f xs) y = length (filter (\<lambda>x. f x = y) xs)"
  by (induction xs) auto

lemma count_list_distinct:
  "distinct xs \<Longrightarrow> count_list xs x = (if x \<in> set xs then 1 else 0)"
  by (induction xs) auto

text \<open>Every element that occurs occurs exactly twice: the shape of a dealt board.\<close>

definition paired :: "'a list \<Rightarrow> bool" where
  "paired xs \<longleftrightarrow> (\<forall>x\<in>set xs. count_list xs x = 2)"

lemma paired_mset:
  assumes "mset xs = mset ys"
  shows "paired xs = paired ys"
proof -
  have "count_list xs x = count_list ys x" for x
    using assms by (metis count_mset)
  moreover have "set xs = set ys"
    using assms by (metis set_mset_mset)
  ultimately show ?thesis by (simp add: paired_def)
qed

lemma paired_double:
  "distinct xs \<Longrightarrow> paired (xs @ xs)"
  by (simp add: paired_def count_list_distinct)

lemma paired_map_same:
  "paired (map g (map_where P f xs)) = paired (map g xs)"
  if "\<And>x. g (f x) = g x"
  using that by (simp add: map_where_map_same)

lemma paired_length: "paired xs \<Longrightarrow> length xs = 2 * card (set xs)"
proof -
  assume "paired xs"
  then have "sum (count_list xs) (set xs) = sum (\<lambda>_. 2) (set xs)"
    by (simp add: paired_def)
  then show ?thesis
    using sum_count_set [of xs "set xs"] by simp
qed

text \<open>On a paired list of distinct elements every element has a partner.\<close>

lemma paired_partner:
  assumes "paired (map f xs)" "distinct xs" "x \<in> set xs"
  shows "\<exists>y\<in>set xs. y \<noteq> x \<and> f y = f x"
proof (rule ccontr)
  assume none: "\<not> (\<exists>y\<in>set xs. y \<noteq> x \<and> f y = f x)"
  have "length (filter (\<lambda>y. f y = f x) xs) = 2"
    using assms(1,3) by (simp add: paired_def count_list_map_filter)
  moreover have "filter (\<lambda>y. f y = f x) xs = filter (\<lambda>y. y = x) xs"
    using none by (auto intro: filter_cong)
  moreover have "length (filter (\<lambda>y. y = x) xs) = 1"
    using count_list_map_filter [of id xs x] count_list_distinct [OF assms(2)] assms(3) by simp
  ultimately show False by simp
qed

text \<open>
  In a list of distinct elements, a predicate that holds of exactly two of them and of
  two known distinct ones holds of no third one.
\<close>

lemma filter_two_cases:
  assumes "distinct xs" and "length (filter P xs) = 2"
    and "x \<in> set xs" "y \<in> set xs" "P x" "P y" "x \<noteq> y"
    and "z \<in> set xs" "P z"
  shows "z = x \<or> z = y"
proof (rule ccontr)
  assume nz: "\<not> (z = x \<or> z = y)"
  have "distinct (filter P xs)"
    using assms(1) by simp
  then have "card (set (filter P xs)) = length (filter P xs)"
    by (rule distinct_card)
  with assms(2) have fin: "card (set (filter P xs)) = 2"
    by simp
  have "{x, y, z} \<subseteq> set (filter P xs)"
    using assms by auto
  then have "card {x, y, z} \<le> 2"
    using fin by (metis card_mono finite_set)
  with nz \<open>x \<noteq> y\<close> show False by (auto simp: card_insert_if)
qed

text \<open>A list of distinct elements of \<open>xs\<close>, followed by the other elements of \<open>xs\<close>, is a permutation of \<open>xs\<close>.\<close>

lemma mset_prefix_rest:
  assumes "distinct xs" "distinct es" "set es \<subseteq> set xs"
  shows "mset (es @ filter (\<lambda>e. e \<notin> set es) xs) = mset xs"
proof -
  have "set (filter (\<lambda>e. e \<in> set es) xs) = set es" "distinct (filter (\<lambda>e. e \<in> set es) xs)"
    using assms by auto
  then have "mset (filter (\<lambda>e. e \<in> set es) xs) = mset es"
    using assms(2) by (metis set_eq_iff_mset_eq_distinct)
  then show ?thesis
    by (metis mset_append mset_filter multiset_partition)
qed

lemma length_filter_or:
  "length (filter (\<lambda>x. P x \<or> Q x) xs) =
     length (filter Q xs) + length (filter (\<lambda>x. P x \<and> \<not> Q x) xs)"
  by (induction xs) auto

lemma length_filter_two:
  assumes "distinct (map f xs)" "a \<in> f ` set xs" "b \<in> f ` set xs" "a \<noteq> b"
  shows "length (filter (\<lambda>x. f x = a \<or> f x = b) xs) = 2"
proof -
  have "length (filter (\<lambda>x. f x = a \<or> f x = b) xs) = count_list (map f xs) a + count_list (map f xs) b"
    using assms(4) by (induction xs) auto
  with assms(1-3) show ?thesis
    by (simp add: count_list_distinct)
qed

lemma length_filter_count_list:
  "length (filter P xs) = count_list (map P xs) True"
  by (induction xs) auto

lemma takeWhile_all: "\<forall>x\<in>set xs. P x \<Longrightarrow> takeWhile P xs = xs"
  by (rule takeWhile_eq_all_conv [THEN iffD2])

lemma list_all_map_set: "list_all P xs \<longleftrightarrow> (\<forall>b\<in>set (map P xs). b)"
  by (auto simp: list_all_iff)

lemma list_all_cong_map:
  "map P xs = map P ys \<Longrightarrow> list_all P xs = list_all P ys"
  by (simp only: list_all_map_set)

lemma distinct_map_nth_eq_iff:
  "distinct (map f xs) \<Longrightarrow> i < length xs \<Longrightarrow> j < length xs \<Longrightarrow> f (xs ! i) = f (xs ! j) \<longleftrightarrow> i = j"
  by (metis length_map nth_eq_iff_index_eq nth_map)

lemma distinct_map_inj_eq:
  "distinct (map f xs) \<Longrightarrow> x \<in> set xs \<Longrightarrow> y \<in> set xs \<Longrightarrow> f x = f y \<Longrightarrow> x = y"
  by (metis distinct_map inj_on_def)

section \<open>Searching a list\<close>

text \<open>The position of the first element satisfying \<open>P\<close> (\<^verbatim>\<open>findIndex\<close>).\<close>

fun first_index :: "('a \<Rightarrow> bool) \<Rightarrow> 'a list \<Rightarrow> nat" where
  "first_index P [] = 0"
| "first_index P (x # xs) = (if P x then 0 else Suc (first_index P xs))"

lemma first_index_found:
  "\<exists>x\<in>set xs. P x \<Longrightarrow> first_index P xs < length xs \<and> P (xs ! first_index P xs)"
  by (induction xs) auto

end
