(* ===== verification/JsRuntime.thy ===== *)
theory JsRuntime
  imports Prelude
begin

text \<open>
  The JavaScript built-ins the game calls, modelled at the precision its code needs:
  numbers that are integers or \<open>NaN\<close> with their \<open><\<close>; \<^verbatim>\<open>Number.prototype.toString\<close>
  on integers; \<^verbatim>\<open>parseInt(s, 10)\<close>; the truncating remainder \<^verbatim>\<open>%\<close>;
  \<^verbatim>\<open>String.prototype.padStart\<close>; and \<^verbatim>\<open>Array.prototype.sort\<close> called with the
  comparator \<^verbatim>\<open>() => 0.5 - Math.random()\<close>, as an insertion sort whose comparisons
  are read from a stream of random outcomes; over all streams it returns exactly the
  permutations of its input. The insertion sort stands for the engine's algorithm only
  up to this set of results: its probabilities are not those of any engine's sort. Strings are \<open>char list\<close>s; every string the
  game builds or parses is ASCII, where a JavaScript code unit and an Isabelle \<open>char\<close>
  agree.
\<close>

section \<open>Numbers\<close>

text \<open>A JavaScript number as the game uses it: an integer, or \<open>NaN\<close>.\<close>

datatype jsnum = Num int | NaN

text \<open>The relational operator \<^verbatim>\<open><\<close>: every comparison with \<open>NaN\<close> is false.\<close>

fun js_less :: "jsnum \<Rightarrow> jsnum \<Rightarrow> bool" where
  "js_less (Num a) (Num b) = (a < b)"
| "js_less _ _ = False"

lemma js_less_NaN [simp]: "\<not> js_less a NaN" "\<not> js_less NaN b"
  by (cases a; simp) (cases b; simp)

text \<open>The remainder \<^verbatim>\<open>a % b\<close> truncates towards zero (its sign is that of \<open>a\<close>).\<close>

definition js_rem :: "int \<Rightarrow> int \<Rightarrow> int" where
  "js_rem a b = sgn a * (\<bar>a\<bar> mod \<bar>b\<bar>)"

lemma js_rem_nonneg [simp]: "0 \<le> a \<Longrightarrow> js_rem a b = a mod \<bar>b\<bar>"
  by (cases "a = 0") (auto simp: js_rem_def)

section \<open>Decimal printing\<close>

definition digit_chars :: string where
  "digit_chars = ''0123456789''"

text \<open>\<^verbatim>\<open>n.toString()\<close> for a non-negative integer \<open>n\<close>: its decimal digits.\<close>

fun string_of_nat :: "nat \<Rightarrow> string" where
  "string_of_nat n =
     (if n < 10 then [digit_chars ! n]
      else string_of_nat (n div 10) @ [digit_chars ! (n mod 10)])"

declare string_of_nat.simps [simp del]

text \<open>\<^verbatim>\<open>i.toString()\<close> for an integer: a minus sign before the digits of \<open>|i|\<close>.\<close>

definition string_of_int :: "int \<Rightarrow> string" where
  "string_of_int i =
     (if i < 0 then CHR ''-'' # string_of_nat (nat (- i)) else string_of_nat (nat i))"

text \<open>\<^verbatim>\<open>s.padStart(n, c)\<close> with a one-character filler.\<close>

definition padStart :: "nat \<Rightarrow> char \<Rightarrow> string \<Rightarrow> string" where
  "padStart n c s = replicate (n - length s) c @ s"

text \<open>\<^verbatim>\<open>String(x)\<close>, which React uses to render a number: \<^verbatim>\<open>NaN\<close> prints as such.\<close>

definition js_toString :: "jsnum \<Rightarrow> string" where
  "js_toString x = (case x of Num i \<Rightarrow> string_of_int i | NaN \<Rightarrow> ''NaN'')"

section \<open>parseInt with radix 10\<close>

text \<open>
  \<^verbatim>\<open>parseInt(s, 10)\<close> (ECMA-262, 19.2.5): skip leading white space, read one optional
  sign, take the longest prefix of decimal digits; no digit gives \<open>NaN\<close>. White space
  is the ASCII part of the StrWhiteSpaceChar set (TAB, LF, VT, FF, CR, SPACE).
\<close>

definition is_ws :: "char \<Rightarrow> bool" where
  "is_ws c \<longleftrightarrow> (of_char c :: nat) \<in> {9, 10, 11, 12, 13, 32}"

definition is_digit :: "char \<Rightarrow> bool" where
  "is_digit c \<longleftrightarrow> 48 \<le> (of_char c :: nat) \<and> (of_char c :: nat) \<le> 57"

definition digits_value :: "string \<Rightarrow> nat" where
  "digits_value ds = foldl (\<lambda>acc c. 10 * acc + (of_char c - 48)) 0 ds"

definition parseInt10 :: "string \<Rightarrow> jsnum" where
  "parseInt10 s =
     (let s1 = dropWhile is_ws s;
          sign = (case s1 of c # _ \<Rightarrow> if c = CHR ''-'' then -1 else 1 | [] \<Rightarrow> (1::int));
          s2 = (case s1 of c # r \<Rightarrow> if c = CHR ''-'' \<or> c = CHR ''+'' then r else s1 | [] \<Rightarrow> s1);
          z = takeWhile is_digit s2
      in if z = [] then NaN else Num (sign * int (digits_value z)))"

section \<open>Sorting with a random comparator\<close>

text \<open>
  \<^verbatim>\<open>xs.sort(() => 0.5 - Math.random())\<close>. The comparator ignores its arguments, so the
  result is decided by the random outcomes alone; \<open>True\<close> stands for an outcome above
  one half, a negative comparison, which puts the element being inserted first. The
  sort is an insertion sort over the outcomes \<open>r\<close>; an exhausted stream answers
  \<open>False\<close>. The remaining stream is returned, as \<^verbatim>\<open>Math.random\<close> is one global
  generator.
\<close>

fun next_coin :: "bool list \<Rightarrow> bool \<times> bool list" where
  "next_coin [] = (False, [])"
| "next_coin (b # bs) = (b, bs)"

fun rs_insert :: "bool list \<Rightarrow> 'a \<Rightarrow> 'a list \<Rightarrow> 'a list \<times> bool list" where
  "rs_insert r x [] = ([x], r)"
| "rs_insert r x (y # ys) =
     (let (b, r') = next_coin r in
      if b then (x # y # ys, r')
      else (let (zs, r'') = rs_insert r' x ys in (y # zs, r'')))"

fun random_sort_acc :: "bool list \<Rightarrow> 'a list \<Rightarrow> 'a list \<Rightarrow> 'a list \<times> bool list" where
  "random_sort_acc r acc [] = (acc, r)"
| "random_sort_acc r acc (x # xs) =
     (let (acc', r') = rs_insert r x acc in random_sort_acc r' acc' xs)"

definition random_sort :: "bool list \<Rightarrow> 'a list \<Rightarrow> 'a list \<times> bool list" where
  "random_sort r xs = random_sort_acc r [] xs"

section \<open>Printing then parsing gives the number back\<close>

lemma of_char_digit: "d < 10 \<Longrightarrow> (of_char (digit_chars ! d) :: nat) = 48 + d"
  unfolding digit_chars_def
  by (auto simp: less_Suc_eq numeral_eq_Suc)

lemma string_of_nat_digits: "c \<in> set (string_of_nat n) \<Longrightarrow> is_digit c"
proof (induction n rule: string_of_nat.induct)
  case (1 n)
  then show ?case
    by (auto simp: string_of_nat.simps [of n] is_digit_def of_char_digit split: if_splits)
qed

lemma string_of_nat_not_Nil [simp]: "string_of_nat n \<noteq> []"
  by (simp add: string_of_nat.simps [of n])

lemma digits_value_snoc: "digits_value (xs @ [c]) = 10 * digits_value xs + (of_char c - 48)"
  by (simp add: digits_value_def)

lemma digits_value_string_of_nat [simp]: "digits_value (string_of_nat n) = n"
proof (induction n rule: string_of_nat.induct)
  case (1 n)
  show ?case
  proof (cases "n < 10")
    case True
    then show ?thesis by (simp add: string_of_nat.simps [of n] digits_value_def of_char_digit)
  next
    case False
    with "1.IH" show ?thesis
      by (simp add: string_of_nat.simps [of n] digits_value_snoc of_char_digit)
  qed
qed

lemma is_digit_not_ws: "is_digit c \<Longrightarrow> \<not> is_ws c"
  by (auto simp: is_digit_def is_ws_def)

lemma is_digit_not_sign: "is_digit c \<Longrightarrow> c \<noteq> CHR ''-'' \<and> c \<noteq> CHR ''+''"
  by (auto simp: is_digit_def)

lemma parse_digits:
  assumes "is_digit c" "\<forall>x\<in>set r. is_digit x"
  shows "parseInt10 (c # r) = Num (int (digits_value (c # r)))"
  using assms is_digit_not_ws [OF assms(1)] is_digit_not_sign [OF assms(1)]
  by (simp add: parseInt10_def Let_def takeWhile_all)

lemma parseInt10_string_of_nat: "parseInt10 (string_of_nat n) = Num (int n)"
proof -
  obtain c r where eq: "string_of_nat n = c # r"
    by (cases "string_of_nat n") auto
  then have "is_digit c" "\<forall>x\<in>set r. is_digit x"
    using string_of_nat_digits [of _ n] by auto
  from parse_digits [OF this] eq show ?thesis
    by (metis digits_value_string_of_nat)
qed

lemma parseInt10_neg:
  "parseInt10 (CHR ''-'' # string_of_nat n) = Num (- int n)"
proof -
  have h: "\<forall>x\<in>set (string_of_nat n). is_digit x"
    using string_of_nat_digits by blast
  then show ?thesis
    by (simp add: parseInt10_def Let_def is_ws_def takeWhile_all [OF h])
qed

lemma parseInt10_string_of_int: "parseInt10 (string_of_int i) = Num i"
  by (simp add: string_of_int_def parseInt10_neg parseInt10_string_of_nat)

lemma string_of_nat_inj: "string_of_nat m = string_of_nat n \<longleftrightarrow> m = n"
  by (metis digits_value_string_of_nat)

section \<open>The random sort is a permutation\<close>

lemma mset_rs_insert: "mset (fst (rs_insert r x ys)) = add_mset x (mset ys)"
  by (induction r x ys rule: rs_insert.induct) (auto split: prod.splits)

lemma mset_random_sort_acc:
  "mset (fst (random_sort_acc r acc xs)) = mset acc + mset xs"
proof (induction r acc xs rule: random_sort_acc.induct)
  case (1 r acc)
  then show ?case by simp
next
  case (2 r acc x xs)
  obtain acc' r' where eq: "rs_insert r x acc = (acc', r')" by fastforce
  with mset_rs_insert [of r x acc] have "mset acc' = add_mset x (mset acc)" by simp
  with "2.IH" [OF eq [symmetric] refl] eq show ?case by simp
qed

lemma mset_random_sort: "mset (fst (random_sort r xs)) = mset xs"
  by (simp add: random_sort_def mset_random_sort_acc)

lemma length_random_sort [simp]: "length (fst (random_sort r xs)) = length xs"
  by (metis mset_random_sort size_mset)

lemma set_random_sort [simp]: "set (fst (random_sort r xs)) = set xs"
  by (metis mset_random_sort set_mset_mset)

section \<open>Every permutation is an outcome of the random sort\<close>

text \<open>
  The outcomes that make \<open>rs_insert\<close> put the new element at position \<open>k\<close> of a list of
  length \<open>n\<close>: \<open>k\<close> comparisons answering \<open>False\<close>, then one answering \<open>True\<close> unless
  the element goes last.
\<close>

definition ins_coins :: "nat \<Rightarrow> nat \<Rightarrow> bool list" where
  "ins_coins k n = replicate k False @ (if k < n then [True] else [])"

lemma rs_insert_coins:
  "k \<le> length ys \<Longrightarrow>
     rs_insert (ins_coins k (length ys) @ rest) x ys = (take k ys @ x # drop k ys, rest)"
proof (induction ys arbitrary: k)
  case Nil
  then show ?case by (simp add: ins_coins_def)
next
  case (Cons y ys)
  show ?case
  proof (cases k)
    case 0
    then show ?thesis by (simp add: ins_coins_def)
  next
    case (Suc k')
    with Cons.prems have "k' \<le> length ys" by simp
    with Cons.IH [of k'] Suc show ?thesis
      by (simp add: ins_coins_def)
  qed
qed

lemma random_sort_acc_snoc:
  "random_sort_acc r acc (xs @ [x]) =
     (let (acc', r') = random_sort_acc r acc xs in rs_insert r' x acc')"
  by (induction r acc xs rule: random_sort_acc.induct) (simp_all split: prod.splits)

lemma mset_remove_nth:
  "k < length ys \<Longrightarrow> mset ys = add_mset (ys ! k) (mset (take k ys @ drop (Suc k) ys))"
  by (metis id_take_nth_drop mset.simps(2) mset_append union_mset_add_mset_right)

text \<open>
  For every permutation \<open>ys\<close> of \<open>xs\<close> there are outcomes \<open>c\<close> of the generator, read
  before anything else, that make the sort return \<open>ys\<close>; the outcomes after them are
  left for the next caller.
\<close>

lemma random_sort_onto:
  "mset ys = mset xs \<Longrightarrow> \<exists>c. \<forall>rest. random_sort (c @ rest) xs = (ys, rest)"
proof (induction xs arbitrary: ys rule: rev_induct)
  case Nil
  then show ?case by (simp add: random_sort_def)
next
  case (snoc x xs)
  then have "x \<in> set ys"
    by (metis mset_eq_setD set_append list.set_intros(1) UnCI)
  then obtain k where k: "k < length ys" "ys ! k = x"
    by (metis in_set_conv_nth)
  define ys' where "ys' = take k ys @ drop (Suc k) ys"
  have "mset ys = add_mset x (mset ys')"
    using mset_remove_nth [OF k(1)] k(2) by (simp add: ys'_def)
  with snoc.prems have "mset ys' = mset xs"
    by simp
  then obtain c where c: "\<And>rest. random_sort (c @ rest) xs = (ys', rest)"
    using snoc.IH by blast
  have len: "length ys' = length ys - 1" "k \<le> length ys'"
    using k(1) by (simp_all add: ys'_def)
  have ins: "take k ys' @ x # drop k ys' = ys"
    using k id_take_nth_drop [OF k(1)] by (simp add: ys'_def)
  have "random_sort ((c @ ins_coins k (length ys')) @ rest) (xs @ [x]) = (ys, rest)" for rest
    using c [of "ins_coins k (length ys') @ rest"] rs_insert_coins [OF len(2), of rest x] ins
    by (simp add: random_sort_def random_sort_acc_snoc)
  then show ?case by blast
qed

text \<open>
  Over all outcomes of the generator, the random sort returns exactly the permutations of
  its input: it implements the nondeterministic specification \<open>mset ys = mset xs\<close>.
\<close>

lemma random_sort_outcomes:
  "{fst (random_sort r xs) | r. True} = {ys. mset ys = mset xs}"
proof (intro set_eqI iffI)
  fix ys
  assume "ys \<in> {fst (random_sort r xs) | r. True}"
  then show "ys \<in> {ys. mset ys = mset xs}"
    by (auto simp: mset_random_sort)
next
  fix ys
  assume "ys \<in> {ys. mset ys = mset xs}"
  then obtain c where "\<And>rest. random_sort (c @ rest) xs = (ys, rest)"
    using random_sort_onto by blast
  from this [of "[]"] show "ys \<in> {fst (random_sort r xs) | r. True}"
    by (metis (mono_tags, lifting) fst_conv mem_Collect_eq)
qed

end
