(* ===== verification/GameTypes.thy ===== *)
theory GameTypes
  imports JsRuntime
begin

text \<open>
  The data of the game (src/types.ts) and its constants (src/constants.ts). An emoji is
  the Unicode code point of its one-character string: every entry of the pool is a
  single code point, so string equality on emojis is equality of code points. Moves and
  seconds are JavaScript numbers that only ever hold integers: \<open>int\<close>. The best score
  is read back with \<^verbatim>\<open>parseInt\<close> and may be \<open>NaN\<close>: \<open>jsnum\<close>.
\<close>

datatype GameState = START | PLAYING | GAME_OVER

type_synonym emoji = nat

text \<open>The interface \<^verbatim>\<open>Card\<close>; its field \<^verbatim>\<open>id\<close> is \<open>card_id\<close>, as \<open>id\<close> is HOL's identity.\<close>

record card =
  card_id :: string
  emoji :: emoji
  isFlipped :: bool
  isMatched :: bool

record GameStats =
  moves :: int
  bestMoves :: jsnum
  timer :: int

definition GRID_SIZE :: nat where
  "GRID_SIZE = 4"

definition PAIRS_COUNT :: nat where
  "PAIRS_COUNT = (GRID_SIZE * GRID_SIZE) div 2"

definition FLIP_DELAY_MS :: nat where
  "FLIP_DELAY_MS = 1000"

definition EMOJI_POOL :: "emoji list" where
  "EMOJI_POOL =
    [0x1F436, 0x1F431, 0x1F42D, 0x1F439, 0x1F430, 0x1F98A, 0x1F43B, 0x1F43C,
     0x1F428, 0x1F42F, 0x1F981, 0x1F42E, 0x1F437, 0x1F438, 0x1F435, 0x1F984,
     0x1F419, 0x1F98B, 0x1F41E, 0x1F980, 0x1F420, 0x1F995, 0x1F996, 0x1F422,
     0x1F34E, 0x1F34C, 0x1F347, 0x1F349, 0x1F353, 0x1F352, 0x1F351, 0x1F34D]"

lemma PAIRS_COUNT_val [simp]: "PAIRS_COUNT = 8"
  by (simp add: PAIRS_COUNT_def GRID_SIZE_def)

lemma length_EMOJI_POOL [simp]: "length EMOJI_POOL = 32"
  by (simp add: EMOJI_POOL_def)

lemma distinct_EMOJI_POOL [simp]: "distinct EMOJI_POOL"
  by (simp add: EMOJI_POOL_def)

end
