(* ===== verification/Board.thy ===== *)
theory Board
  imports GameTypes
begin

text \<open>
  The board engine, src/components/GameEngine.tsx. Its three pieces of React state
  (\<^verbatim>\<open>cards\<close>, \<^verbatim>\<open>flippedIds\<close>, \<^verbatim>\<open>isProcessing\<close>) are the record \<open>engine\<close>.
  Each handler takes the engine state and returns the new one together with the
  effects it asks of the rest of the program, in the order the code issues them: the
  calls of the \<^verbatim>\<open>updateStats\<close> and \<^verbatim>\<open>setGameState\<close> props and the
  \<^verbatim>\<open>setTimeout\<close> callbacks (\<open>timeout\<close>, one constructor per callback with the ids it
  closes over). The system theory applies the effects. The deal lemmas show that a
  deal is exactly an arrangement of \<open>PAIRS_COUNT\<close> distinct pool emojis, each twice,
  and the engine invariants are kept by every handler.
\<close>

record engine =
  cards :: "card list"
  flippedIds :: "string list"
  isProcessing :: bool

definition empty_engine :: engine where
  "empty_engine = \<lparr>cards = [], flippedIds = [], isProcessing = False\<rparr>"

datatype timeout = MatchT string string | MismatchT string string

datatype effect = IncMoves | SetGameState GameState | SetTimeout timeout

text \<open>The delay each callback is scheduled with.\<close>

fun timeout_delay :: "timeout \<Rightarrow> nat" where
  "timeout_delay (MatchT _ _) = 500"
| "timeout_delay (MismatchT _ _) = FLIP_DELAY_MS"

section \<open>Dealing\<close>

definition new_card :: "nat \<Rightarrow> emoji \<Rightarrow> card" where
  "new_card index e =
     \<lparr>card_id = ''card-'' @ string_of_nat index, emoji = e, isFlipped = False, isMatched = False\<rparr>"

definition initializeBoard :: "bool list \<Rightarrow> engine \<times> bool list" where
  "initializeBoard r0 =
     (let (shuffledEmojis, r1) = random_sort r0 EMOJI_POOL;
          selectedEmojis = take PAIRS_COUNT shuffledEmojis;
          gameEmojis = selectedEmojis @ selectedEmojis;
          (shuffledGameEmojis, r2) = random_sort r1 gameEmojis;
          newCards = map (\<lambda>(index, e). new_card index e) (enumerate 0 shuffledGameEmojis)
      in (\<lparr>cards = newCards, flippedIds = [], isProcessing = False\<rparr>, r2))"

text \<open>
  The effect \<^verbatim>\<open>useEffect(..., [gameState, cards.length])\<close>: on the start screen it
  clears the board, and once playing with no cards it deals. It consumes the random
  outcomes the deal reads.
\<close>

definition engine_effect :: "GameState \<Rightarrow> bool list \<Rightarrow> engine \<Rightarrow> engine \<times> bool list" where
  "engine_effect gs r e =
     (if gs = START then (e\<lparr>cards := [], flippedIds := [], isProcessing := False\<rparr>, r)
      else if gs = PLAYING \<and> cards e = [] then initializeBoard r
      else (e, r))"

section \<open>Selecting a card\<close>

definition checkForMatch :: "string \<Rightarrow> string \<Rightarrow> card list \<Rightarrow> timeout" where
  "checkForMatch id1 id2 currentCards =
     (case (find (\<lambda>c. card_id c = id1) currentCards, find (\<lambda>c. card_id c = id2) currentCards) of
        (Some card1, Some card2) \<Rightarrow>
          if emoji card1 = emoji card2 then MatchT id1 id2 else MismatchT id1 id2
      | _ \<Rightarrow> MismatchT id1 id2)"

definition handleCardClick :: "GameState \<Rightarrow> card \<Rightarrow> engine \<Rightarrow> engine \<times> effect list" where
  "handleCardClick gameState clickedCard e =
     (if gameState \<noteq> PLAYING \<or> isProcessing e \<or> isMatched clickedCard \<or> isFlipped clickedCard
      then (e, [])
      else
        let newCards = map_where (\<lambda>c. card_id c = card_id clickedCard)
                         (\<lambda>c. c\<lparr>isFlipped := True\<rparr>) (cards e);
            newFlippedIds = flippedIds e @ [card_id clickedCard]
        in if length newFlippedIds = 2
           then (e\<lparr>cards := newCards, flippedIds := newFlippedIds, isProcessing := True\<rparr>,
                 [IncMoves, SetTimeout (checkForMatch (newFlippedIds ! 0) (newFlippedIds ! 1) newCards)])
           else (e\<lparr>cards := newCards, flippedIds := newFlippedIds\<rparr>, []))"

section \<open>Resolving a pair\<close>

text \<open>The bodies of the two \<^verbatim>\<open>setTimeout\<close> callbacks.\<close>

definition handleMatch :: "string \<Rightarrow> string \<Rightarrow> engine \<Rightarrow> engine \<times> effect list" where
  "handleMatch id1 id2 e =
     (let newCards = map_where (\<lambda>c. card_id c = id1 \<or> card_id c = id2)
                       (\<lambda>c. c\<lparr>isMatched := True, isFlipped := True\<rparr>) (cards e)
      in (e\<lparr>cards := newCards, flippedIds := [], isProcessing := False\<rparr>,
          if list_all isMatched newCards then [SetGameState GAME_OVER] else []))"

definition handleMismatch :: "string \<Rightarrow> string \<Rightarrow> engine \<Rightarrow> engine" where
  "handleMismatch id1 id2 e =
     e\<lparr>cards := map_where (\<lambda>c. card_id c = id1 \<or> card_id c = id2)
                 (\<lambda>c. c\<lparr>isFlipped := False\<rparr>) (cards e),
       flippedIds := [], isProcessing := False\<rparr>"

fun fire_timeout :: "timeout \<Rightarrow> engine \<Rightarrow> engine \<times> effect list" where
  "fire_timeout (MatchT id1 id2) e = handleMatch id1 id2 e"
| "fire_timeout (MismatchT id1 id2) e = (handleMismatch id1 id2 e, [])"

text \<open>The grid is not rendered on the start screen before a board exists.\<close>

definition grid_rendered :: "GameState \<Rightarrow> engine \<Rightarrow> bool" where
  "grid_rendered gameState e \<longleftrightarrow> \<not> (gameState = START \<and> cards e = [])"

text \<open>
  The grid (lines after \<^verbatim>\<open>return\<close>): one element per card, keyed by its id, turned
  face up (\<^verbatim>\<open>rotate-y-180\<close>) when flipped, faded out and made unclickable
  (\<^verbatim>\<open>opacity-0 pointer-events-none\<close>) when matched, showing its emoji on the front.
  \<open>None\<close> is the early \<^verbatim>\<open>return null\<close>.
\<close>

record card_view =
  view_key :: string
  face_up :: bool
  faded :: bool
  front :: emoji

definition render_grid :: "GameState \<Rightarrow> engine \<Rightarrow> card_view list option" where
  "render_grid gameState e =
     (if gameState = START \<and> cards e = [] then None
      else Some (map (\<lambda>card. \<lparr>view_key = card_id card, face_up = isFlipped card,
                              faded = isMatched card, front = emoji card\<rparr>) (cards e)))"

section \<open>The dealt board\<close>

text \<open>The ids \<^verbatim>\<open>card-0\<close>, ..., \<^verbatim>\<open>card-15\<close> of a dealt board, in board order.\<close>

definition board_ids :: "string list" where
  "board_ids = map (\<lambda>i. ''card-'' @ string_of_nat i) [0..<2 * PAIRS_COUNT]"

lemma distinct_board_ids [simp]: "distinct board_ids"
  by (auto simp: board_ids_def distinct_map inj_on_def string_of_nat_inj)

lemma length_board_ids [simp]: "length board_ids = 16"
  by (simp add: board_ids_def)

lemma new_card_fields [simp, board_simps]:
  "card_id (new_card i e) = ''card-'' @ string_of_nat i"
  "emoji (new_card i e) = e"
  "isFlipped (new_card i e) = False"
  "isMatched (new_card i e) = False"
  by (simp_all add: new_card_def)

text \<open>The emojis of a deal, before they are turned into cards.\<close>

lemma initializeBoard_split:
  obtains sh r1 sg r2 where
    "random_sort r0 EMOJI_POOL = (sh, r1)"
    "random_sort r1 (take PAIRS_COUNT sh @ take PAIRS_COUNT sh) = (sg, r2)"
    "initializeBoard r0 =
       (\<lparr>cards = map (\<lambda>(i, e). new_card i e) (enumerate 0 sg), flippedIds = [],
         isProcessing = False\<rparr>, r2)"
proof -
  obtain sh r1 where a: "random_sort r0 EMOJI_POOL = (sh, r1)"
    by fastforce
  obtain sg r2 where b: "random_sort r1 (take PAIRS_COUNT sh @ take PAIRS_COUNT sh) = (sg, r2)"
    by fastforce
  have "initializeBoard r0 =
       (\<lparr>cards = map (\<lambda>(i, e). new_card i e) (enumerate 0 sg), flippedIds = [],
         isProcessing = False\<rparr>, r2)"
    using a b by (simp add: initializeBoard_def)
  with a b show thesis
    by (rule that)
qed

lemma deal_emojis:
  assumes "random_sort r0 EMOJI_POOL = (sh, r1)"
    and "random_sort r1 (take PAIRS_COUNT sh @ take PAIRS_COUNT sh) = (sg, r2)"
  shows "length sg = 2 * PAIRS_COUNT" and "paired sg"
    and "set sg \<subseteq> set EMOJI_POOL" and "card (set sg) = PAIRS_COUNT"
proof -
  have "mset sh = mset EMOJI_POOL"
    using mset_random_sort [of r0 EMOJI_POOL] assms(1) by simp
  then have "distinct sh" and "length sh = 32"
    by (metis distinct_EMOJI_POOL mset_eq_imp_distinct_iff,
        metis length_EMOJI_POOL size_mset)
  have msg: "mset sg = mset (take PAIRS_COUNT sh @ take PAIRS_COUNT sh)"
    using mset_random_sort [of r1] assms(2) by (metis fst_conv)
  then have "length sg = length (take PAIRS_COUNT sh @ take PAIRS_COUNT sh)"
    by (metis size_mset)
  then show "length sg = 2 * PAIRS_COUNT"
    using \<open>length sh = 32\<close> by simp
  have "paired (take PAIRS_COUNT sh @ take PAIRS_COUNT sh)"
    using \<open>distinct sh\<close> by (simp add: paired_double)
  with paired_mset [OF msg] show "paired sg"
    by blast
  have "set sg = set (take PAIRS_COUNT sh)"
    using msg by (metis set_mset_mset set_append Un_absorb)
  moreover have "set sh = set EMOJI_POOL"
    using \<open>mset sh = mset EMOJI_POOL\<close> by (metis set_mset_mset)
  ultimately show "set sg \<subseteq> set EMOJI_POOL"
    by (metis set_take_subset)
  have "distinct (take PAIRS_COUNT sh)"
    using \<open>distinct sh\<close> by simp
  with \<open>set sg = set (take PAIRS_COUNT sh)\<close> \<open>length sh = 32\<close> show "card (set sg) = PAIRS_COUNT"
    by (simp add: distinct_card)
qed

lemma map_new_card_enumerate:
  "map card_id (map (\<lambda>(i, e). new_card i e) (enumerate 0 xs)) =
     map (\<lambda>i. ''card-'' @ string_of_nat i) [0..<length xs]"
  "map emoji (map (\<lambda>(i, e). new_card i e) (enumerate 0 xs)) = xs"
proof -
  have e1: "card_id \<circ> (\<lambda>(i, e). new_card i e) = (\<lambda>i. ''card-'' @ string_of_nat i) \<circ> fst"
    and e2: "emoji \<circ> (\<lambda>(i, e). new_card i e) = snd"
    by (auto simp: fun_eq_iff)
  have "map card_id (map (\<lambda>(i, e). new_card i e) (enumerate 0 xs)) =
     map (\<lambda>i. ''card-'' @ string_of_nat i) (map fst (enumerate 0 xs))"
    by (simp only: map_map e1)
  then show "map card_id (map (\<lambda>(i, e). new_card i e) (enumerate 0 xs)) =
     map (\<lambda>i. ''card-'' @ string_of_nat i) [0..<length xs]"
    by (simp add: enumerate_eq_zip)
  have "map emoji (map (\<lambda>(i, e). new_card i e) (enumerate 0 xs)) = map snd (enumerate 0 xs)"
    by (simp only: map_map e2)
  then show "map emoji (map (\<lambda>(i, e). new_card i e) (enumerate 0 xs)) = xs"
    by (simp add: enumerate_eq_zip)
qed

theorem initializeBoard_shape:
  fixes r :: "bool list"
  defines "cs \<equiv> cards (fst (initializeBoard r))"
  shows "map card_id cs = board_ids" and "paired (map emoji cs)"
    and "set (map emoji cs) \<subseteq> set EMOJI_POOL" and "card (set (map emoji cs)) = PAIRS_COUNT"
    and "\<forall>c\<in>set cs. \<not> isFlipped c \<and> \<not> isMatched c"
    and "flippedIds (fst (initializeBoard r)) = []"
    and "\<not> isProcessing (fst (initializeBoard r))"
proof -
  obtain sh r1 sg r2 where d:
    "random_sort r EMOJI_POOL = (sh, r1)"
    "random_sort r1 (take PAIRS_COUNT sh @ take PAIRS_COUNT sh) = (sg, r2)"
    "initializeBoard r =
       (\<lparr>cards = map (\<lambda>(i, e). new_card i e) (enumerate 0 sg), flippedIds = [],
         isProcessing = False\<rparr>, r2)"
    by (rule initializeBoard_split)
  note sg = deal_emojis [OF d(1,2)]
  show "map card_id cs = board_ids"
    using sg(1) by (simp add: cs_def d(3) board_ids_def map_new_card_enumerate del: map_map)
  show "paired (map emoji cs)"
    using sg(2) by (simp add: cs_def d(3) map_new_card_enumerate del: map_map)
  show "set (map emoji cs) \<subseteq> set EMOJI_POOL" "card (set (map emoji cs)) = PAIRS_COUNT"
    using sg(3,4) by (simp_all add: cs_def d(3) map_new_card_enumerate del: map_map)
  show "\<forall>c\<in>set cs. \<not> isFlipped c \<and> \<not> isMatched c"
    by (auto simp: cs_def d(3) enumerate_eq_zip)
  show "flippedIds (fst (initializeBoard r)) = []" "\<not> isProcessing (fst (initializeBoard r))"
    by (simp_all add: d(3))
qed

section \<open>The engine invariant\<close>

text \<open>
  \<open>selection_inv\<close>: the selected ids are distinct, at most two, ids of cards on the board,
  and exactly the face-up cards not yet matched; matched cards stay face up.
  \<open>pairs_inv\<close>: a matched card's partners (same emoji) are matched. The lemmas below
  show that an accepted click, a match and a mismatch keep both, and how a match
  changes the number of matched cards.
\<close>


definition selection_inv :: "card list \<Rightarrow> string list \<Rightarrow> bool" where
  "selection_inv cs F \<longleftrightarrow>
     distinct F \<and> length F \<le> 2 \<and> set F \<subseteq> card_id ` set cs \<and>
     (\<forall>c\<in>set cs. isMatched c \<longrightarrow> isFlipped c) \<and>
     (\<forall>c\<in>set cs. (isFlipped c \<and> \<not> isMatched c) \<longleftrightarrow> card_id c \<in> set F)"

definition pairs_inv :: "card list \<Rightarrow> bool" where
  "pairs_inv cs \<longleftrightarrow>
     (\<forall>c\<in>set cs. \<forall>c'\<in>set cs. isMatched c \<and> emoji c' = emoji c \<longrightarrow> isMatched c')"

abbreviation flip_up :: "string \<Rightarrow> card list \<Rightarrow> card list" where
  "flip_up i cs \<equiv> map_where (\<lambda>c. card_id c = i) (\<lambda>c. c\<lparr>isFlipped := True\<rparr>) cs"

abbreviation mark_matched :: "string \<Rightarrow> string \<Rightarrow> card list \<Rightarrow> card list" where
  "mark_matched a b cs \<equiv>
     map_where (\<lambda>c. card_id c = a \<or> card_id c = b) (\<lambda>c. c\<lparr>isMatched := True, isFlipped := True\<rparr>) cs"

abbreviation flip_down :: "string \<Rightarrow> string \<Rightarrow> card list \<Rightarrow> card list" where
  "flip_down a b cs \<equiv>
     map_where (\<lambda>c. card_id c = a \<or> card_id c = b) (\<lambda>c. c\<lparr>isFlipped := False\<rparr>) cs"

lemma map_fields_flip_up [simp]:
  "map card_id (flip_up i cs) = map card_id cs"
  "map emoji (flip_up i cs) = map emoji cs"
  "map isMatched (flip_up i cs) = map isMatched cs"
  by (simp_all add: map_where_map_same)

lemma map_fields_mark_matched [simp]:
  "map card_id (mark_matched a b cs) = map card_id cs"
  "map emoji (mark_matched a b cs) = map emoji cs"
  by (simp_all add: map_where_map_same)

lemma map_fields_flip_down [simp]:
  "map card_id (flip_down a b cs) = map card_id cs"
  "map emoji (flip_down a b cs) = map emoji cs"
  "map isMatched (flip_down a b cs) = map isMatched cs"
  by (simp_all add: map_where_map_same)

lemma image_eq_if_map_eq: "map f xs = map f ys \<Longrightarrow> f ` set xs = f ` set ys"
  by (metis set_map)

lemma ids_flip_up [simp]: "card_id ` set (flip_up i cs) = card_id ` set cs"
  by (rule image_eq_if_map_eq) simp

lemma card_flip_eq_iff [simp]:
  "x\<lparr>isFlipped := b\<rparr> = x \<longleftrightarrow> isFlipped x = b"
  "x = x\<lparr>isFlipped := b\<rparr> \<longleftrightarrow> isFlipped x = b"
  by (cases x; auto)+

lemma selection_flip_up:
  assumes "selection_inv cs F" "distinct (map card_id cs)" "length F \<le> 1"
    and "c \<in> set cs" "\<not> isMatched c" "\<not> isFlipped c"
  shows "selection_inv (flip_up (card_id c) cs) (F @ [card_id c])"
proof -
  have nF: "card_id c \<notin> set F"
    using assms(1,4,6) by (auto simp: selection_inv_def)
  have same: "\<not> isMatched x \<and> \<not> isFlipped x" if "x \<in> set cs" "card_id x = card_id c" for x
    using distinct_map_inj_eq [OF assms(2) that(1) assms(4) that(2)] assms(5,6) by simp
  show ?thesis
    using assms(1,3,4,5) nF same
    by (auto simp: selection_inv_def set_map_where split: if_splits)
qed

lemma selection_mark_matched:
  "selection_inv cs [a, b] \<Longrightarrow> selection_inv (mark_matched a b cs) []"
  by (auto simp: selection_inv_def map_where_def)

lemma selected_unmatched:
  "selection_inv cs F \<Longrightarrow> x \<in> set cs \<Longrightarrow> card_id x \<in> set F \<Longrightarrow> isFlipped x \<and> \<not> isMatched x"
  by (auto simp: selection_inv_def)

lemma selection_flip_down:
  assumes "selection_inv cs [a, b]"
  shows "selection_inv (flip_down a b cs) []"
  using assms selected_unmatched [OF assms]
  by (auto simp: selection_inv_def map_where_def)

lemma pairs_flip_up: "pairs_inv cs \<Longrightarrow> pairs_inv (flip_up i cs)"
  by (auto simp: pairs_inv_def map_where_def)

lemma pairs_flip_down: "pairs_inv cs \<Longrightarrow> pairs_inv (flip_down a b cs)"
  by (auto simp: pairs_inv_def map_where_def)

text \<open>On a paired board the two cards of a matching pair are the only ones with their emoji.\<close>

lemma pair_partners:
  assumes "paired (map emoji cs)" "distinct (map card_id cs)"
    and "ca \<in> set cs" "cb \<in> set cs" "card_id ca \<noteq> card_id cb" "emoji ca = emoji cb"
    and "z \<in> set cs" "emoji z = emoji ca"
  shows "z = ca \<or> z = cb"
proof (rule filter_two_cases [where P = "\<lambda>x. emoji x = emoji ca"])
  show "distinct cs"
    using assms(2) by (simp add: distinct_map)
  have "count_list (map emoji cs) (emoji ca) = 2"
    using assms(1,3) by (simp add: paired_def)
  then show "length (filter (\<lambda>x. emoji x = emoji ca) cs) = 2"
    by (simp add: count_list_map_filter)
  show "ca \<noteq> cb"
    using assms(5) by blast
qed (use assms in auto)

text \<open>An update that keeps emojis keeps \<open>pairs_inv\<close> when it matches cards in whole pairs.\<close>

lemma pairs_inv_map:
  assumes "\<And>x. emoji (f x) = emoji x"
    and "\<And>x y. x \<in> set cs \<Longrightarrow> y \<in> set cs \<Longrightarrow> emoji y = emoji x \<Longrightarrow> isMatched (f x) \<Longrightarrow>
           isMatched (f y)"
  shows "pairs_inv (map f cs)"
  unfolding pairs_inv_def
proof (intro ballI impI)
  fix c c'
  assume "c \<in> set (map f cs)" "c' \<in> set (map f cs)" and mc: "isMatched c \<and> emoji c' = emoji c"
  then obtain x y where x: "x \<in> set cs" "c = f x" and y: "y \<in> set cs" "c' = f y"
    by auto
  with mc assms(1) have "emoji y = emoji x" by simp
  with assms(2) [OF x(1) y(1)] mc x(2) y(2) show "isMatched c'" by simp
qed

lemma pairs_mark_matched:
  assumes "pairs_inv cs" "paired (map emoji cs)" "distinct (map card_id cs)"
    and "ca \<in> set cs" "cb \<in> set cs" "card_id ca \<noteq> card_id cb" "emoji ca = emoji cb"
  shows "pairs_inv (mark_matched (card_id ca) (card_id cb) cs)"
proof -
  let ?Q = "\<lambda>x. card_id x = card_id ca \<or> card_id x = card_id cb"
  have emoji_Q: "emoji x = emoji ca" if "x \<in> set cs" "?Q x" for x
    using that(2)
  proof
    assume "card_id x = card_id ca"
    then show ?thesis using distinct_map_inj_eq [OF assms(3) that(1) assms(4)] by simp
  next
    assume "card_id x = card_id cb"
    then show ?thesis using distinct_map_inj_eq [OF assms(3) that(1) assms(5)] assms(7) by simp
  qed
  have partner: "?Q z" if "z \<in> set cs" "emoji z = emoji ca" for z
    using pair_partners [OF assms(2-7) that] by blast
  have step: "isMatched (if ?Q y then y\<lparr>isMatched := True, isFlipped := True\<rparr> else y)"
    if xy: "x \<in> set cs" "y \<in> set cs" "emoji y = emoji x"
      and m: "isMatched (if ?Q x then x\<lparr>isMatched := True, isFlipped := True\<rparr> else x)" for x y
  proof (cases "?Q y")
    case False
    show ?thesis
    proof (cases "?Q x")
      case True
      have "emoji y = emoji ca"
        using xy(3) emoji_Q [OF xy(1) True] by simp
      then have "?Q y" by (rule partner [OF xy(2)])
      with False show ?thesis by blast
    next
      case False
      with m have "isMatched x" by simp
      with assms(1) xy have "isMatched y"
        unfolding pairs_inv_def by blast
      with \<open>\<not> ?Q y\<close> show ?thesis by simp
    qed
  qed simp
  show ?thesis
    unfolding map_where_def by (rule pairs_inv_map) (simp, rule step)
qed

lemma matched_count_same:
  "map isMatched cs' = map isMatched cs \<Longrightarrow>
     length (filter isMatched cs') = length (filter isMatched cs)"
  by (simp add: length_filter_count_list)

lemma matched_count_mark_matched:
  assumes "distinct (map card_id cs)" "a \<in> card_id ` set cs" "b \<in> card_id ` set cs" "a \<noteq> b"
    and "\<forall>x\<in>set cs. card_id x = a \<or> card_id x = b \<longrightarrow> \<not> isMatched x"
  shows "length (filter isMatched (mark_matched a b cs)) = length (filter isMatched cs) + 2"
proof -
  let ?Q = "\<lambda>x. card_id x = a \<or> card_id x = b"
  have "filter isMatched (mark_matched a b cs) =
        map (\<lambda>x. if ?Q x then x\<lparr>isMatched := True, isFlipped := True\<rparr> else x)
          (filter (\<lambda>x. ?Q x \<or> isMatched x) cs)"
    by (induction cs) (auto simp: map_where_def)
  then have "length (filter isMatched (mark_matched a b cs)) =
        length (filter (\<lambda>x. ?Q x \<or> isMatched x) cs)"
    by simp
  also have "\<dots> = length (filter isMatched cs) + length (filter (\<lambda>x. ?Q x \<and> \<not> isMatched x) cs)"
    by (rule length_filter_or)
  also have "filter (\<lambda>x. ?Q x \<and> \<not> isMatched x) cs = filter ?Q cs"
    by (rule filter_cong) (use assms(5) in auto)
  also have "length (filter ?Q cs) = 2"
    using length_filter_two [OF assms(1-4)] .
  finally show ?thesis .
qed

text \<open>The face-up unmatched cards are exactly as many as the selected ids.\<close>

lemma selection_count:
  assumes "selection_inv cs F" "distinct (map card_id cs)"
  shows "length (filter (\<lambda>c. isFlipped c \<and> \<not> isMatched c) cs) = length F"
proof -
  let ?P = "\<lambda>c. isFlipped c \<and> \<not> isMatched c"
  have d: "distinct (map card_id (filter ?P cs))"
    using assms(2) by (simp add: distinct_map_filter)
  have "set (map card_id (filter ?P cs)) = set F"
    using assms(1) unfolding selection_inv_def by auto
  then have "length (map card_id (filter ?P cs)) = length F"
    using distinct_card [OF d] assms(1) by (metis distinct_card selection_inv_def)
  then show ?thesis by simp
qed

section \<open>Looking cards up by id\<close>

lemma find_by_id:
  "distinct (map card_id cs) \<Longrightarrow> c \<in> set cs \<Longrightarrow> find (\<lambda>x. card_id x = card_id c) cs = Some c"
proof (induction cs)
  case Nil
  then show ?case by simp
next
  case (Cons x xs)
  show ?case
  proof (cases "c = x")
    case True
    then show ?thesis by simp
  next
    case False
    with Cons.prems have "c \<in> set xs" by simp
    with Cons.prems have "card_id x \<noteq> card_id c" by (auto simp: image_iff)
    with Cons.IH Cons.prems \<open>c \<in> set xs\<close> show ?thesis by simp
  qed
qed

lemma checkForMatch_found:
  assumes "distinct (map card_id cs)" "ca \<in> set cs" "cb \<in> set cs"
  shows "checkForMatch (card_id ca) (card_id cb) cs =
           (if emoji ca = emoji cb then MatchT (card_id ca) (card_id cb)
            else MismatchT (card_id ca) (card_id cb))"
  using find_by_id [OF assms(1,2)] find_by_id [OF assms(1,3)]
  by (simp add: checkForMatch_def)

section \<open>Every arrangement of pairs can be dealt\<close>

text \<open>
  The deal refines the nondeterministic specification of a deal: choose
  \<open>PAIRS_COUNT\<close> distinct emojis of the pool, double them and permute the result. Every
  deal is of that form, and every such arrangement is dealt for some outcomes of the
  generator.
\<close>

lemma deal_sound:
  obtains es where "distinct es" "length es = PAIRS_COUNT" "set es \<subseteq> set EMOJI_POOL"
    "mset (map emoji (cards (fst (initializeBoard r)))) = mset (es @ es)"
proof -
  obtain sh r1 sg r2 where d:
    "random_sort r EMOJI_POOL = (sh, r1)"
    "random_sort r1 (take PAIRS_COUNT sh @ take PAIRS_COUNT sh) = (sg, r2)"
    "initializeBoard r =
       (\<lparr>cards = map (\<lambda>(i, e). new_card i e) (enumerate 0 sg), flippedIds = [],
         isProcessing = False\<rparr>, r2)"
    by (rule initializeBoard_split)
  have "mset sh = mset EMOJI_POOL"
    using mset_random_sort [of r EMOJI_POOL] d(1) by simp
  then have sh: "distinct sh" "length sh = 32" "set sh = set EMOJI_POOL"
    by (metis distinct_EMOJI_POOL mset_eq_imp_distinct_iff, metis length_EMOJI_POOL size_mset,
        metis set_mset_mset)
  have "mset sg = mset (take PAIRS_COUNT sh @ take PAIRS_COUNT sh)"
    using mset_random_sort [of r1] d(2) by (metis fst_conv)
  moreover have "map emoji (cards (fst (initializeBoard r))) = sg"
    by (simp add: d(3) map_new_card_enumerate del: map_map)
  ultimately show thesis
    using that [of "take PAIRS_COUNT sh"] sh by (simp add: set_take_subset [THEN subset_trans])
qed

lemma deal_onto:
  assumes "distinct es" "length es = PAIRS_COUNT" "set es \<subseteq> set EMOJI_POOL"
    and "mset gs = mset (es @ es)"
  shows "\<exists>r. map emoji (cards (fst (initializeBoard r))) = gs"
proof -
  let ?sh = "es @ filter (\<lambda>e. e \<notin> set es) EMOJI_POOL"
  have "mset ?sh = mset EMOJI_POOL"
    by (rule mset_prefix_rest [OF distinct_EMOJI_POOL assms(1,3)])
  then obtain c1 where c1: "\<And>rest. random_sort (c1 @ rest) EMOJI_POOL = (?sh, rest)"
    using random_sort_onto by metis
  obtain c2 where c2: "\<And>rest. random_sort (c2 @ rest) (es @ es) = (gs, rest)"
    using random_sort_onto [OF assms(4)] by metis
  have "take PAIRS_COUNT ?sh = es"
    using assms(2) by simp
  then have "initializeBoard (c1 @ c2) =
      (\<lparr>cards = map (\<lambda>(i, e). new_card i e) (enumerate 0 gs), flippedIds = [],
        isProcessing = False\<rparr>, [])"
    using c1 [of c2] c2 [of "[]"] by (simp add: initializeBoard_def)
  then have "map emoji (cards (fst (initializeBoard (c1 @ c2)))) = gs"
    by (simp add: map_new_card_enumerate del: map_map)
  then show ?thesis ..
qed

end
