(* ===== verification/Session.thy ===== *)
theory Session
  imports GameTypes
begin

text \<open>
  The session controller, src/App.tsx: the game phase and the statistics, the timer,
  the best-score bookkeeping and its persistence. \<^verbatim>\<open>localStorage\<close> holds one key,
  \<^verbatim>\<open>memory_best_moves\<close>, so the store is the value of that key: \<open>None\<close> when it is
  absent. Each function is the body of one hook, callback or state updater; which of
  them runs when is decided in the system theory.
\<close>

text \<open>
  \<^verbatim>\<open>parseInt(localStorage.getItem('memory_best_moves') || '9999', 10)\<close>: an absent key
  and an empty string (both falsy) fall back to \<^verbatim>\<open>'9999'\<close>.
\<close>

definition load_best :: "string option \<Rightarrow> jsnum" where
  "load_best stored =
     parseInt10 (case stored of None \<Rightarrow> ''9999'' | Some s \<Rightarrow> if s = [] then ''9999'' else s)"

definition initial_stats :: "string option \<Rightarrow> GameStats" where
  "initial_stats stored = \<lparr>moves = 0, bestMoves = load_best stored, timer = 0\<rparr>"

text \<open>
  The timer effect on \<^verbatim>\<open>[gameState]\<close>: its cleanup clears the interval of the
  previous run and its body registers a new one when the phase is \<open>PLAYING\<close>; the
  result is whether an interval is registered.
\<close>

definition timer_effect :: "GameState \<Rightarrow> bool" where
  "timer_effect gameState \<longleftrightarrow> gameState = PLAYING"

text \<open>The interval callback \<^verbatim>\<open>setStats(prev => ({...prev, timer: prev.timer + 1}))\<close>.\<close>

definition tick :: "GameStats \<Rightarrow> GameStats" where
  "tick s = s\<lparr>timer := timer s + 1\<rparr>"

text \<open>The updater the engine passes to \<^verbatim>\<open>updateStats\<close> when a pair is complete.\<close>

definition inc_moves :: "GameStats \<Rightarrow> GameStats" where
  "inc_moves s = s\<lparr>moves := moves s + 1\<rparr>"

text \<open>
  The effect on \<^verbatim>\<open>[gameState, stats.moves, stats.bestMoves]\<close>: on the game-over screen
  a strictly better move count is written to the store and becomes the best.
\<close>

definition game_over_effect ::
  "GameState \<Rightarrow> GameStats \<Rightarrow> string option \<Rightarrow> GameStats \<times> string option" where
  "game_over_effect gameState s stored =
     (if gameState = GAME_OVER \<and> js_less (Num (moves s)) (bestMoves s)
      then (s\<lparr>bestMoves := Num (moves s)\<rparr>, Some (string_of_int (moves s)))
      else (s, stored))"

definition resetGame :: "GameStats \<Rightarrow> GameStats \<times> GameState" where
  "resetGame s = (s\<lparr>moves := 0, timer := 0\<rparr>, START)"

end
