(* ===== verification/GameUI.thy ===== *)
theory GameUI
  imports GameTypes
begin

text \<open>
  The overlay, src/components/GameUI.tsx: which screen each phase shows (and so which
  button exists), the clock format, when the personal best is displayed, and what each
  screen displays. The clock of a non-negative count of seconds reads minutes, a colon
  and two digits, and different counts read differently.
\<close>

datatype screen = HUD | StartScreen | GameOverScreen

definition screen_of :: "GameState \<Rightarrow> screen" where
  "screen_of gameState =
     (if gameState = PLAYING then HUD
      else if gameState = START then StartScreen
      else GameOverScreen)"

text \<open>The \<^verbatim>\<open>Start Game\<close> button exists on the start screen, \<^verbatim>\<open>Play Again\<close> on the game-over screen.\<close>

definition has_start_button :: "GameState \<Rightarrow> bool" where
  "has_start_button gameState \<longleftrightarrow> screen_of gameState = StartScreen"

definition has_play_again_button :: "GameState \<Rightarrow> bool" where
  "has_play_again_button gameState \<longleftrightarrow> screen_of gameState = GameOverScreen"

text \<open>
  \<^verbatim>\<open>formatTime\<close>: \<^verbatim>\<open>Math.floor(seconds / 60)\<close> is floor division, \<^verbatim>\<open>seconds % 60\<close> the
  truncating remainder, and the seconds are padded to two digits.
\<close>

definition formatTime :: "int \<Rightarrow> string" where
  "formatTime seconds =
     (let mins = seconds div 60; secs = js_rem seconds 60
      in string_of_int mins @ '':'' @ padStart 2 (CHR ''0'') (string_of_int secs))"

definition shows_best :: "jsnum \<Rightarrow> bool" where
  "shows_best best \<longleftrightarrow> js_less best (Num 9999)"

text \<open>
  What the overlay shows, as the component returns it: the HUD with the move count and
  the clock; the start screen with the \<^verbatim>\<open>Personal Best\<close> panel
  (\<^verbatim>\<open>{stats.bestMoves} Moves\<close>) when \<open>shows_best\<close> holds; the game-over screen with
  the moves and the time; nothing otherwise. Numbers are rendered with
  \<^verbatim>\<open>String\<close>.
\<close>

datatype overlay =
  HUDOverlay string string
| StartOverlay "string option"
| GameOverOverlay string string
| NoOverlay

definition render_overlay :: "GameState \<Rightarrow> GameStats \<Rightarrow> overlay" where
  "render_overlay gameState stats =
     (if gameState = PLAYING
      then HUDOverlay (string_of_int (moves stats)) (formatTime (timer stats))
      else if gameState = START
      then StartOverlay
             (if shows_best (bestMoves stats) then Some (js_toString (bestMoves stats) @ '' Moves'')
              else None)
      else if gameState = GAME_OVER
      then GameOverOverlay (string_of_int (moves stats)) (formatTime (timer stats))
      else NoOverlay)"

section \<open>The clock\<close>

text \<open>For a non-negative count of seconds the clock reads minutes, a colon and two digits.\<close>

lemma padStart_two_digits:
  assumes "0 \<le> x" "x < 60"
  shows "padStart 2 (CHR ''0'') (string_of_int x) =
           [digit_chars ! nat (x div 10), digit_chars ! nat (x mod 10)]"
proof (cases "x < 10")
  case True
  with assms show ?thesis
    by (simp add: string_of_int_def padStart_def string_of_nat.simps [of "nat x"] nat_less_iff)
       (simp add: digit_chars_def)
next
  case False
  then have "\<not> nat x < 10" "nat x div 10 < 10"
    using assms by linarith+
  moreover have "nat x div 10 = nat (x div 10)" "nat x mod 10 = nat (x mod 10)"
    using assms by (simp_all add: nat_div_distrib nat_mod_distrib)
  ultimately show ?thesis
    using assms
    by (simp add: string_of_int_def padStart_def string_of_nat.simps [of "nat x"]
        string_of_nat.simps [of "nat (x div 10)"])
qed

lemma formatTime_nonneg:
  assumes "0 \<le> s"
  shows "formatTime s =
           string_of_int (s div 60) @ '':'' @
             [digit_chars ! nat (s mod 60 div 10), digit_chars ! nat (s mod 60 mod 10)]"
  using assms padStart_two_digits [of "s mod 60"] by (simp add: formatTime_def)

lemma digit_chars_inj:
  "a < 10 \<Longrightarrow> b < 10 \<Longrightarrow> digit_chars ! a = digit_chars ! b \<Longrightarrow> a = b"
  by (metis of_char_digit add_left_cancel)

lemma string_of_int_inj: "string_of_int m = string_of_int n \<Longrightarrow> m = n"
  by (metis parseInt10_string_of_int jsnum.inject)

lemma formatTime_inj:
  assumes "0 \<le> s" "0 \<le> s'" "formatTime s = formatTime s'"
  shows "s = s'"
proof -
  let ?d = "\<lambda>s. [digit_chars ! nat (s mod 60 div 10), digit_chars ! nat (s mod 60 mod 10)]"
  from assms have "string_of_int (s div 60) @ (CHR '':'' # ?d s) =
                   string_of_int (s' div 60) @ (CHR '':'' # ?d s')"
    by (simp add: formatTime_nonneg)
  then have "string_of_int (s div 60) = string_of_int (s' div 60)" "?d s = ?d s'"
    by (simp_all add: append_eq_append_conv)
  then have m: "s div 60 = s' div 60"
    and t: "nat (s mod 60 div 10) = nat (s' mod 60 div 10)"
    and u: "nat (s mod 60 mod 10) = nat (s' mod 60 mod 10)"
    by (auto intro: string_of_int_inj digit_chars_inj)
  from t u have "s mod 60 div 10 = s' mod 60 div 10" "s mod 60 mod 10 = s' mod 60 mod 10"
    by (simp_all add: eq_nat_nat_iff)
  then have "s mod 60 = s' mod 60"
    by (metis div_mult_mod_eq)
  with m show ?thesis
    by (metis div_mod_decomp_int)
qed

end
