(* ===== verification/System.thy ===== *)
theory System
  imports Board Session GameUI
begin

text \<open>
  The running application: App's state, GameEngine's state, the pending
  \<^verbatim>\<open>setTimeout\<close> callbacks, the stored best score, the random generator and whether an
  interval is registered. React runs
  one discrete event at a time, then re-renders and runs the effects whose
  dependencies changed; a step is one event handler followed by that effect pass
  (\<open>settle\<close>). Updates issued inside one handler or callback are batched, as React 18
  batches them, so they take effect together.
\<close>

record world =
  gameState :: GameState
  stats :: GameStats
  engine :: engine
  pending :: "timeout list"
  storage :: "string option"
  rng :: "bool list"
  interval :: bool

section \<open>Effects the engine asks for\<close>

fun apply_effect :: "effect \<Rightarrow> world \<Rightarrow> world" where
  "apply_effect IncMoves w = w\<lparr>stats := inc_moves (stats w)\<rparr>"
| "apply_effect (SetGameState g) w = w\<lparr>gameState := g\<rparr>"
| "apply_effect (SetTimeout t) w = w\<lparr>pending := pending w @ [t]\<rparr>"

definition apply_effects :: "effect list \<Rightarrow> world \<Rightarrow> world" where
  "apply_effects effs w = fold apply_effect effs w"

section \<open>The effect pass\<close>

text \<open>
  After a render React runs the child's effects before the parent's: GameEngine's
  board effect, then App's timer effect and game-over effect.
  Neither changes the phase the other reads, and a second pass changes nothing
  (\<open>settle_settle\<close> in the invariant theory), so one pass reaches React's fixed point.
\<close>

definition settle :: "world \<Rightarrow> world" where
  "settle w =
     (let (e', r') = engine_effect (gameState w) (rng w) (engine w);
          iv = timer_effect (gameState w);
          (s', st') = game_over_effect (gameState w) (stats w) (storage w)
      in w\<lparr>engine := e', rng := r', interval := iv, stats := s', storage := st'\<rparr>)"

section \<open>Events\<close>

text \<open>
  The inputs of the program: a click on the \<^verbatim>\<open>Start Game\<close> button, on the card
  rendered at a position of the grid, on \<^verbatim>\<open>Play Again\<close>; a pending timeout firing (its
  position in the queue of pending timeouts); the interval firing (nothing happens when
  no interval is registered).
\<close>

datatype event = StartClick | CardClick nat | TimeoutFires nat | TimerTick | PlayAgainClick

definition click_card :: "nat \<Rightarrow> world \<Rightarrow> world" where
  "click_card i w =
     (if grid_rendered (gameState w) (engine w) \<and> i < length (cards (engine w))
      then let (e', effs) = handleCardClick (gameState w) (cards (engine w) ! i) (engine w)
           in apply_effects effs (w\<lparr>engine := e'\<rparr>)
      else w)"

definition fire :: "nat \<Rightarrow> world \<Rightarrow> world" where
  "fire k w =
     (if k < length (pending w)
      then let t = pending w ! k;
               w1 = w\<lparr>pending := take k (pending w) @ drop (Suc k) (pending w)\<rparr>;
               (e', effs) = fire_timeout t (engine w1)
           in apply_effects effs (w1\<lparr>engine := e'\<rparr>)
      else w)"

definition start_click :: "world \<Rightarrow> world" where
  "start_click w = (if has_start_button (gameState w) then w\<lparr>gameState := PLAYING\<rparr> else w)"

definition play_again_click :: "world \<Rightarrow> world" where
  "play_again_click w =
     (if has_play_again_button (gameState w)
      then let (s', g') = resetGame (stats w) in w\<lparr>stats := s', gameState := g'\<rparr>
      else w)"

fun handle :: "world \<Rightarrow> event \<Rightarrow> world" where
  "handle w StartClick = start_click w"
| "handle w (CardClick i) = click_card i w"
| "handle w (TimeoutFires k) = fire k w"
| "handle w TimerTick = (if interval w then w\<lparr>stats := tick (stats w)\<rparr> else w)"
| "handle w PlayAgainClick = play_again_click w"

definition step :: "world \<Rightarrow> event \<Rightarrow> world" where
  "step w ev = settle (handle w ev)"

definition run :: "world \<Rightarrow> event list \<Rightarrow> world" where
  "run w evs = foldl step w evs"

text \<open>The first render: App's initial state and GameEngine's empty board, then the effects.\<close>

definition init_world :: "string option \<Rightarrow> bool list \<Rightarrow> world" where
  "init_world stored r =
     settle \<lparr>gameState = START, stats = initial_stats stored, engine = empty_engine,
             pending = [], storage = stored, rng = r, interval = False\<rparr>"

inductive reachable :: "world \<Rightarrow> bool" where
  init: "reachable (init_world stored r)"
| step: "reachable w \<Longrightarrow> reachable (step w ev)"

end
