(* ===== verification/Invariant.thy ===== *)
theory Invariant
  imports System
begin

text \<open>
  The invariant of the running application: what holds in every state reachable from
  the first render. It is split by concern; \<open>world_inv\<close> is their conjunction and
  every event keeps it (\<open>step_world_inv\<close>). The pieces are:
  \<^item> \<open>start_clean\<close>: the start screen has no board, no selection, no pending
    callback, and zero moves and seconds;
  \<^item> \<open>board_shape\<close>: once dealt, the board has the ids \<^verbatim>\<open>card-0\<close> .. \<^verbatim>\<open>card-15\<close>,
    every emoji on it is one of the pool and occurs exactly twice;
  \<^item> \<open>selection_ok\<close>: the selected ids are distinct, at most two, and exactly the
    face-up cards that are not matched; matched cards are face up;
  \<^item> \<open>lock_ok\<close>: the lock is set exactly when two cards are selected, and then exactly
    one callback is pending, the one \<open>checkForMatch\<close> chose for them;
  \<^item> \<open>completion_ok\<close>: the game is over exactly when the board is dealt and all matched;
  \<^item> \<open>pairs_matched\<close>: a matched card's partner is matched;
  \<^item> \<open>moves_ok\<close>: counts are non-negative and every move matched at most one pair;
  \<^item> \<open>score_ok\<close>: the best score is what the store holds, and on the game-over screen
    the game-over effect has nothing left to record;
  \<^item> \<open>interval_ok\<close>: an interval is registered exactly while the phase is PLAYING.
\<close>

abbreviation wcards :: "world \<Rightarrow> card list" where
  "wcards w \<equiv> cards (engine w)"

abbreviation wflipped :: "world \<Rightarrow> string list" where
  "wflipped w \<equiv> flippedIds (engine w)"

abbreviation wlocked :: "world \<Rightarrow> bool" where
  "wlocked w \<equiv> isProcessing (engine w)"

definition start_clean :: "world \<Rightarrow> bool" where
  "start_clean w \<longleftrightarrow>
     (gameState w = START \<longrightarrow>
        wcards w = [] \<and> wflipped w = [] \<and> \<not> wlocked w \<and> pending w = [] \<and>
        moves (stats w) = 0 \<and> timer (stats w) = 0)"

definition board_shape :: "world \<Rightarrow> bool" where
  "board_shape w \<longleftrightarrow>
     (gameState w \<noteq> START \<longrightarrow>
        map card_id (wcards w) = board_ids \<and> paired (map emoji (wcards w)) \<and>
        set (map emoji (wcards w)) \<subseteq> set EMOJI_POOL)"

definition selection_ok :: "world \<Rightarrow> bool" where
  "selection_ok w \<longleftrightarrow> selection_inv (wcards w) (wflipped w)"

definition lock_ok :: "world \<Rightarrow> bool" where
  "lock_ok w \<longleftrightarrow>
     (wlocked w \<longleftrightarrow> length (wflipped w) = 2) \<and>
     pending w =
       (if wlocked w then [checkForMatch (wflipped w ! 0) (wflipped w ! 1) (wcards w)] else [])"

definition completion_ok :: "world \<Rightarrow> bool" where
  "completion_ok w \<longleftrightarrow>
     (gameState w = GAME_OVER \<longleftrightarrow> wcards w \<noteq> [] \<and> list_all isMatched (wcards w))"

definition pairs_matched :: "world \<Rightarrow> bool" where
  "pairs_matched w \<longleftrightarrow> pairs_inv (wcards w)"

definition moves_ok :: "world \<Rightarrow> bool" where
  "moves_ok w \<longleftrightarrow>
     0 \<le> timer (stats w) \<and>
     int (length (filter isMatched (wcards w))) + (if wlocked w then 2 else 0)
       \<le> 2 * moves (stats w)"

definition score_ok :: "world \<Rightarrow> bool" where
  "score_ok w \<longleftrightarrow>
     bestMoves (stats w) = load_best (storage w) \<and>
     (gameState w = GAME_OVER \<longrightarrow> \<not> js_less (Num (moves (stats w))) (bestMoves (stats w)))"

text \<open>\<open>core_inv\<close> reads neither the best score nor the store; \<open>score_ok\<close> only those.\<close>

definition core_inv :: "world \<Rightarrow> bool" where
  "core_inv w \<longleftrightarrow>
     start_clean w \<and> board_shape w \<and> selection_ok w \<and> lock_ok w \<and>
     completion_ok w \<and> pairs_matched w \<and> moves_ok w"

definition interval_ok :: "world \<Rightarrow> bool" where
  "interval_ok w \<longleftrightarrow> (interval w \<longleftrightarrow> gameState w = PLAYING)"

definition world_inv :: "world \<Rightarrow> bool" where
  "world_inv w \<longleftrightarrow> core_inv w \<and> score_ok w \<and> interval_ok w"

lemmas world_inv_defs [inv_defs] =
  world_inv_def core_inv_def start_clean_def board_shape_def selection_ok_def lock_ok_def
  completion_ok_def pairs_matched_def moves_ok_def score_ok_def interval_ok_def

text \<open>Only the effect pass writes \<open>interval\<close>, and no other conjunct reads it.\<close>

lemma interval_update_same: "interval w = b \<Longrightarrow> w\<lparr>interval := b\<rparr> = w"
  by (cases w) auto

lemma inv_interval_update [simp]:
  "core_inv (w\<lparr>interval := b\<rparr>) = core_inv w" "score_ok (w\<lparr>interval := b\<rparr>) = score_ok w"
  by (simp_all add: core_inv_def start_clean_def board_shape_def selection_ok_def lock_ok_def
      completion_ok_def pairs_matched_def moves_ok_def score_ok_def)

section \<open>The effect pass\<close>

lemma settle_START:
  "gameState w = START \<Longrightarrow>
     settle w = w\<lparr>engine := (engine w)\<lparr>cards := [], flippedIds := [], isProcessing := False\<rparr>,
                  interval := False\<rparr>"
  by (simp add: settle_def engine_effect_def game_over_effect_def timer_effect_def)

lemma settle_PLAYING_dealt:
  "gameState w = PLAYING \<Longrightarrow> wcards w \<noteq> [] \<Longrightarrow> settle w = w\<lparr>interval := True\<rparr>"
  by (simp add: settle_def engine_effect_def game_over_effect_def timer_effect_def)

lemma settle_PLAYING_empty:
  "gameState w = PLAYING \<Longrightarrow> wcards w = [] \<Longrightarrow>
     settle w = w\<lparr>engine := fst (initializeBoard (rng w)), rng := snd (initializeBoard (rng w)),
                  interval := True\<rparr>"
  by (simp add: settle_def engine_effect_def game_over_effect_def timer_effect_def split: prod.splits)

lemma settle_GAME_OVER:
  "gameState w = GAME_OVER \<Longrightarrow>
     settle w = w\<lparr>stats := fst (game_over_effect GAME_OVER (stats w) (storage w)),
                  storage := snd (game_over_effect GAME_OVER (stats w) (storage w)),
                  interval := False\<rparr>"
  by (simp add: settle_def engine_effect_def timer_effect_def split: prod.splits)

lemma game_over_effect_fields [simp]:
  "moves (fst (game_over_effect g s st)) = moves s"
  "timer (fst (game_over_effect g s st)) = timer s"
  by (simp_all add: game_over_effect_def)

lemma load_best_string_of_int [simp]: "load_best (Some (string_of_int m)) = Num m"
proof -
  have "string_of_int m \<noteq> []"
    by (simp add: string_of_int_def)
  then show ?thesis
    by (simp add: load_best_def parseInt10_string_of_int)
qed

text \<open>The game-over effect leaves nothing to record and keeps the store and the best in agreement.\<close>

lemma game_over_effect_score:
  assumes "bestMoves s = load_best st"
  defines "r \<equiv> game_over_effect GAME_OVER s st"
  shows "bestMoves (fst r) = load_best (snd r)"
    and "\<not> js_less (Num (moves (fst r))) (bestMoves (fst r))"
  using assms by (auto simp: r_def game_over_effect_def)

lemma settle_world_inv_id:
  assumes "world_inv w"
  shows "settle w = w"
proof (cases "gameState w")
  case START
  with assms have "wcards w = []" "wflipped w = []" "\<not> wlocked w" "interval w = False"
    by (simp_all add: world_inv_def core_inv_def start_clean_def interval_ok_def)
  then have "(engine w)\<lparr>cards := [], flippedIds := [], isProcessing := False\<rparr> = engine w"
    by (cases "engine w") simp
  with START \<open>interval w = False\<close> show ?thesis
    by (simp add: settle_START interval_update_same)
next
  case PLAYING
  with assms have "map card_id (wcards w) = board_ids" "interval w = True"
    by (simp_all add: world_inv_def core_inv_def board_shape_def interval_ok_def)
  then have "wcards w \<noteq> []"
    by (metis length_board_ids length_map list.size(3) zero_neq_numeral)
  with PLAYING \<open>interval w = True\<close> show ?thesis
    by (simp add: settle_PLAYING_dealt interval_update_same)
next
  case GAME_OVER
  from assms have "\<not> js_less (Num (moves (stats w))) (bestMoves (stats w))"
    unfolding world_inv_def score_ok_def using GAME_OVER by blast
  moreover from assms GAME_OVER have "interval w = False"
    by (simp add: world_inv_def interval_ok_def)
  ultimately show ?thesis
    using GAME_OVER by (simp add: settle_GAME_OVER game_over_effect_def interval_update_same)
qed

section \<open>The first render\<close>

lemma init_world_eq:
  "init_world stored r =
     \<lparr>gameState = START, stats = initial_stats stored, engine = empty_engine,
      pending = [], storage = stored, rng = r, interval = False\<rparr>"
  by (simp add: init_world_def settle_START empty_engine_def)

lemma world_inv_init: "world_inv (init_world stored r)"
  by (simp add: init_world_eq world_inv_defs initial_stats_def empty_engine_def
      selection_inv_def pairs_inv_def)

section \<open>Consequences of the invariant\<close>

lemma board_ids_not_Nil [simp]: "board_ids \<noteq> []"
  using length_board_ids by (metis list.size(3) zero_neq_numeral)

lemma inv_dealt:
  assumes "world_inv w" "gameState w \<noteq> START"
  shows "distinct (map card_id (wcards w))" "wcards w \<noteq> []" "paired (map emoji (wcards w))"
proof -
  from assms have ids: "map card_id (wcards w) = board_ids" and "paired (map emoji (wcards w))"
    by (simp_all add: world_inv_def core_inv_def board_shape_def)
  then show "distinct (map card_id (wcards w))" "paired (map emoji (wcards w))"
    by simp_all
  from ids show "wcards w \<noteq> []"
    by (metis board_ids_not_Nil list.simps(8))
qed

lemma inv_unlocked:
  assumes "world_inv w" "\<not> wlocked w"
  shows "pending w = []" "length (wflipped w) \<le> 1"
proof -
  from assms(1) have "lock_ok w" "selection_inv (wcards w) (wflipped w)"
    by (simp_all add: world_inv_def core_inv_def selection_ok_def)
  with assms(2) show "pending w = []" "length (wflipped w) \<le> 1"
    by (auto simp: lock_ok_def selection_inv_def)
qed

lemma inv_game_over:
  assumes "world_inv w" "gameState w = GAME_OVER"
  shows "wflipped w = []" "\<not> wlocked w" "pending w = []"
proof -
  from assms have sel: "selection_inv (wcards w) (wflipped w)"
    and all: "list_all isMatched (wcards w)" and lock: "lock_ok w"
    by (simp_all add: world_inv_def core_inv_def selection_ok_def completion_ok_def)
  show "wflipped w = []"
  proof (rule ccontr)
    assume "wflipped w \<noteq> []"
    then obtain a where "a \<in> set (wflipped w)" by (cases "wflipped w") auto
    with sel obtain c where "c \<in> set (wcards w)" "card_id c = a"
      by (auto simp: selection_inv_def)
    with sel \<open>a \<in> set (wflipped w)\<close> have "\<not> isMatched c"
      by (auto simp: selection_inv_def)
    with all \<open>c \<in> set (wcards w)\<close> show False
      by (simp add: list_all_iff)
  qed
  with lock show "\<not> wlocked w" "pending w = []"
    by (simp_all add: lock_ok_def)
qed

text \<open>\<open>core_inv\<close> depends on the phase, the engine, the queue and the two counters only.\<close>

lemma core_inv_cong:
  "gameState w' = gameState w \<Longrightarrow> engine w' = engine w \<Longrightarrow> pending w' = pending w \<Longrightarrow>
   moves (stats w') = moves (stats w) \<Longrightarrow> timer (stats w') = timer (stats w) \<Longrightarrow>
   core_inv w' = core_inv w"
  by (simp add: core_inv_def start_clean_def board_shape_def selection_ok_def lock_ok_def
      completion_ok_def pairs_matched_def moves_ok_def)

section \<open>Each event keeps the invariant\<close>

subsection \<open>The interval\<close>

lemma step_tick:
  assumes "world_inv w"
  shows "step w TimerTick = (if gameState w = PLAYING then w\<lparr>stats := tick (stats w)\<rparr> else w)"
    and "world_inv (step w TimerTick)"
proof -
  have iv: "interval w \<longleftrightarrow> gameState w = PLAYING"
    using assms by (simp add: world_inv_def interval_ok_def)
  show eq: "step w TimerTick = (if gameState w = PLAYING then w\<lparr>stats := tick (stats w)\<rparr> else w)"
  proof (cases "gameState w = PLAYING")
    case True
    let ?w' = "w\<lparr>stats := tick (stats w)\<rparr>"
    have "world_inv ?w'"
      using assms True by (auto simp: world_inv_defs tick_def)
    with True iv show ?thesis
      by (simp add: step_def settle_world_inv_id)
  next
    case False
    with iv assms show ?thesis
      by (simp add: step_def settle_world_inv_id)
  qed
  have "world_inv (w\<lparr>stats := tick (stats w)\<rparr>)" if "gameState w = PLAYING"
    using assms that by (auto simp: world_inv_defs tick_def)
  with assms show "world_inv (step w TimerTick)"
    by (simp add: eq)
qed

subsection \<open>A rejected click\<close>

text \<open>
  A click is accepted only in play, with the board unlocked, on a card that is neither
  matched nor face up; any other click changes nothing at all.
\<close>

definition click_accepted :: "world \<Rightarrow> nat \<Rightarrow> bool" where
  "click_accepted w i \<longleftrightarrow>
     gameState w = PLAYING \<and> \<not> wlocked w \<and> i < length (wcards w) \<and>
     \<not> isMatched (wcards w ! i) \<and> \<not> isFlipped (wcards w ! i)"

lemma click_card_rejected:
  "\<not> click_accepted w i \<Longrightarrow> click_card i w = w"
  by (auto simp: click_accepted_def click_card_def handleCardClick_def apply_effects_def)

lemma step_click_rejected:
  "world_inv w \<Longrightarrow> \<not> click_accepted w i \<Longrightarrow> step w (CardClick i) = w"
  by (simp add: step_def click_card_rejected settle_world_inv_id)

subsection \<open>An accepted click\<close>

lemma click_card_accepted:
  assumes "click_accepted w i"
  defines "c \<equiv> wcards w ! i"
  shows "click_card i w =
     (if length (wflipped w) = 1
      then w\<lparr>engine := (engine w)\<lparr>cards := flip_up (card_id c) (wcards w),
                                   flippedIds := wflipped w @ [card_id c], isProcessing := True\<rparr>,
             stats := inc_moves (stats w),
             pending := pending w @
               [checkForMatch (wflipped w ! 0) (card_id c) (flip_up (card_id c) (wcards w))]\<rparr>
      else w\<lparr>engine := (engine w)\<lparr>cards := flip_up (card_id c) (wcards w),
                                   flippedIds := wflipped w @ [card_id c]\<rparr>\<rparr>)"
  using assms
  by (simp add: click_accepted_def click_card_def handleCardClick_def grid_rendered_def
      apply_effects_def Let_def nth_append)

lemma inv_unlocked_parts:
  assumes inv: "world_inv w" and play: "gameState w = PLAYING" and unl: "\<not> wlocked w"
  shows "selection_inv (wcards w) (wflipped w)" and "pairs_inv (wcards w)"
    and "map card_id (wcards w) = board_ids" "paired (map emoji (wcards w))"
      "set (map emoji (wcards w)) \<subseteq> set EMOJI_POOL"
    and "\<not> list_all isMatched (wcards w)"
    and "int (length (filter isMatched (wcards w))) \<le> 2 * moves (stats w)"
    and "0 \<le> timer (stats w)"
    and "bestMoves (stats w) = load_best (storage w)"
    and "interval w"
  using inv play unl inv_dealt(2) [OF inv] unfolding world_inv_defs selection_ok_def by auto

text \<open>The board after the clicked card is turned face up.\<close>

lemma flip_up_parts:
  assumes inv: "world_inv w" and acc: "click_accepted w i"
  defines "c \<equiv> wcards w ! i"
  defines "cs' \<equiv> flip_up (card_id c) (wcards w)"
  shows "selection_inv cs' (wflipped w @ [card_id c])" and "pairs_inv cs'"
    and "map card_id cs' = board_ids" "map emoji cs' = map emoji (wcards w)"
    and "length (filter isMatched cs') = length (filter isMatched (wcards w))"
    and "list_all isMatched cs' = list_all isMatched (wcards w)"
proof -
  from acc have play: "gameState w = PLAYING" and unl: "\<not> wlocked w"
    and cin: "c \<in> set (wcards w)" and um: "\<not> isMatched c" and uf: "\<not> isFlipped c"
    by (auto simp: click_accepted_def c_def)
  have nst: "gameState w \<noteq> START" using play by simp
  note parts = inv_unlocked_parts [OF inv play unl]
  show "selection_inv cs' (wflipped w @ [card_id c])"
    unfolding cs'_def
    by (rule selection_flip_up [OF parts(1) inv_dealt(1) [OF inv nst] inv_unlocked(2) [OF inv unl]
          cin um uf])
  show "pairs_inv cs'"
    unfolding cs'_def by (rule pairs_flip_up [OF parts(2)])
  show "map card_id cs' = board_ids" "map emoji cs' = map emoji (wcards w)"
    "length (filter isMatched cs') = length (filter isMatched (wcards w))"
    "list_all isMatched cs' = list_all isMatched (wcards w)"
    using parts(3) matched_count_same [OF map_fields_flip_up(3)]
      list_all_cong_map [OF map_fields_flip_up(3)]
    by (simp_all add: cs'_def)
qed

lemma click_card_inv:
  assumes inv: "world_inv w" and acc: "click_accepted w i"
  shows "world_inv (click_card i w)"
proof -
  define c where "c = wcards w ! i"
  define cs' where "cs' = flip_up (card_id c) (wcards w)"
  from acc have play: "gameState w = PLAYING" and unl: "\<not> wlocked w"
    by (auto simp: click_accepted_def)
  note unlocked = inv_unlocked [OF inv unl]
  note parts = inv_unlocked_parts [OF inv play unl]
  note parts' = flip_up_parts [OF inv acc, folded c_def, folded cs'_def]
  show ?thesis
  proof (cases "length (wflipped w) = 1")
    case True
    then have "wflipped w @ [card_id c] = [wflipped w ! 0, card_id c]"
      by (cases "wflipped w") auto
    with True show ?thesis
      using play unl unlocked parts parts'
      by (simp add: click_card_accepted [OF acc] world_inv_defs inc_moves_def nth_append
          flip: c_def cs'_def)
  next
    case False
    with unlocked(2) have "wflipped w = []" by (cases "wflipped w") auto
    then show ?thesis
      using play unl unlocked parts parts'
      by (simp add: click_card_accepted [OF acc] world_inv_defs flip: c_def cs'_def)
  qed
qed

lemma step_click_accepted:
  assumes inv: "world_inv w" and acc: "click_accepted w i"
  shows "step w (CardClick i) = click_card i w" and "world_inv (step w (CardClick i))"
proof -
  have w': "world_inv (click_card i w)" by (rule click_card_inv [OF inv acc])
  then show "step w (CardClick i) = click_card i w"
    by (simp add: step_def settle_world_inv_id)
  with w' show "world_inv (step w (CardClick i))"
    by simp
qed

subsection \<open>A pending callback fires\<close>

text \<open>
  After any handler that keeps the core invariant and the agreement of best score and
  store, the effect pass re-establishes the whole invariant: it is the identity except
  on the game-over screen, where it records an improved score.
\<close>

lemma settle_world_inv:
  assumes core: "core_inv w" and best: "bestMoves (stats w) = load_best (storage w)"
  shows "world_inv (settle w)"
proof (cases "gameState w")
  case START
  with core have "wcards w = []" "wflipped w = []" "\<not> wlocked w"
    by (simp_all add: core_inv_def start_clean_def)
  then have "(engine w)\<lparr>cards := [], flippedIds := [], isProcessing := False\<rparr> = engine w"
    by (cases "engine w") simp
  with START core best show ?thesis
    by (simp add: settle_START world_inv_def score_ok_def interval_ok_def)
next
  case PLAYING
  with core have "map card_id (wcards w) = board_ids"
    by (simp add: core_inv_def board_shape_def)
  then have "wcards w \<noteq> []"
    by (metis board_ids_not_Nil list.simps(8))
  with PLAYING core best show ?thesis
    by (simp add: settle_PLAYING_dealt world_inv_def score_ok_def interval_ok_def)
next
  case GAME_OVER
  let ?r = "game_over_effect GAME_OVER (stats w) (storage w)"
  have "core_inv (settle w) = core_inv w"
    by (rule core_inv_cong) (simp_all add: settle_GAME_OVER [OF GAME_OVER])
  moreover have "score_ok (settle w)"
    using game_over_effect_score [OF best] GAME_OVER
    by (simp add: settle_GAME_OVER score_ok_def)
  ultimately show ?thesis
    using core GAME_OVER by (simp add: world_inv_def interval_ok_def settle_GAME_OVER)
qed

lemma inv_locked:
  assumes inv: "world_inv w" and lk: "wlocked w"
  obtains ca cb where "gameState w = PLAYING" "ca \<in> set (wcards w)" "cb \<in> set (wcards w)"
    "wflipped w = [card_id ca, card_id cb]" "card_id ca \<noteq> card_id cb"
    "isFlipped ca" "\<not> isMatched ca" "isFlipped cb" "\<not> isMatched cb"
    "pending w = [checkForMatch (card_id ca) (card_id cb) (wcards w)]"
proof -
  have play: "gameState w = PLAYING"
  proof (cases "gameState w")
    case START
    with inv lk show ?thesis by (simp add: world_inv_defs)
  next
    case GAME_OVER
    with inv_game_over [OF inv] lk show ?thesis by simp
  qed
  from inv lk have sel: "selection_inv (wcards w) (wflipped w)" and lock: "lock_ok w"
    and two: "length (wflipped w) = 2"
    by (simp_all add: world_inv_defs)
  then obtain a b where ab: "wflipped w = [a, b]"
    by (metis (no_types) length_0_conv length_Suc_conv numeral_2_eq_2)
  with sel obtain ca cb where "ca \<in> set (wcards w)" "card_id ca = a"
    "cb \<in> set (wcards w)" "card_id cb = b"
    by (auto simp: selection_inv_def)
  moreover have "a \<noteq> b"
    using sel ab by (simp add: selection_inv_def)
  moreover note selected_unmatched [OF sel]
  moreover have "pending w = [checkForMatch a b (wcards w)]"
    using lock lk ab by (simp add: lock_ok_def)
  ultimately show ?thesis
    using that play ab by auto
qed

text \<open>A board locked on the cards at positions \<open>i\<close> and \<open>j\<close>.\<close>

lemma inv_locked_at:
  assumes inv: "world_inv w" and lk: "wlocked w"
    and ij: "i < length (wcards w)" "j < length (wcards w)"
    and F: "wflipped w = [card_id (wcards w ! i), card_id (wcards w ! j)]"
  shows "gameState w = PLAYING" "distinct (map card_id (wcards w))" "wcards w \<noteq> []"
    and "pending w = [checkForMatch (card_id (wcards w ! i)) (card_id (wcards w ! j)) (wcards w)]"
proof -
  obtain ca cb where play: "gameState w = PLAYING" and cab: "ca \<in> set (wcards w)" "cb \<in> set (wcards w)"
    and F': "wflipped w = [card_id ca, card_id cb]"
    and pend: "pending w = [checkForMatch (card_id ca) (card_id cb) (wcards w)]"
    by (rule inv_locked [OF inv lk])
  show "gameState w = PLAYING" by (rule play)
  have nst: "gameState w \<noteq> START" using play by simp
  show "distinct (map card_id (wcards w))" "wcards w \<noteq> []"
    using inv_dealt [OF inv nst] by simp_all
  show "pending w = [checkForMatch (card_id (wcards w ! i)) (card_id (wcards w ! j)) (wcards w)]"
    using pend F F' by simp
qed

lemma fire_resolves:
  assumes "distinct (map card_id (wcards w))" "ca \<in> set (wcards w)" "cb \<in> set (wcards w)"
    and "pending w = [checkForMatch (card_id ca) (card_id cb) (wcards w)]"
  defines "a \<equiv> card_id ca" and "b \<equiv> card_id cb"
  shows "fire 0 w =
     (if emoji ca = emoji cb
      then w\<lparr>pending := [],
             engine := (engine w)\<lparr>cards := mark_matched a b (wcards w), flippedIds := [],
                                  isProcessing := False\<rparr>,
             gameState := (if list_all isMatched (mark_matched a b (wcards w)) then GAME_OVER
                           else gameState w)\<rparr>
      else w\<lparr>pending := [],
             engine := (engine w)\<lparr>cards := flip_down a b (wcards w), flippedIds := [],
                                  isProcessing := False\<rparr>\<rparr>)"
  using assms checkForMatch_found [OF assms(1-3)]
  by (simp add: fire_def handleMatch_def handleMismatch_def apply_effects_def Let_def)

lemma fire_stats: "stats (fire k w) = stats w"
proof (cases "k < length (pending w)")
  case True
  then show ?thesis
    by (cases "pending w ! k")
       (simp_all add: fire_def handleMatch_def handleMismatch_def apply_effects_def Let_def)
qed (simp add: fire_def)

text \<open>What the invariant says of a locked board on cards \<open>ca\<close> and \<open>cb\<close>.\<close>

lemma inv_locked_parts:
  assumes inv: "world_inv w" and lk: "wlocked w" and F: "wflipped w = [card_id ca, card_id cb]"
    and play: "gameState w = PLAYING"
  shows "selection_inv (wcards w) [card_id ca, card_id cb]" and "pairs_inv (wcards w)"
    and "map card_id (wcards w) = board_ids" "set (map emoji (wcards w)) \<subseteq> set EMOJI_POOL"
    and "\<not> list_all isMatched (wcards w)"
    and "int (length (filter isMatched (wcards w))) + 2 \<le> 2 * moves (stats w)"
    and "0 \<le> timer (stats w)"
  using inv play lk F inv_dealt(2) [OF inv] unfolding world_inv_defs selection_ok_def by auto

text \<open>Matching the two selected cards adds two matched cards.\<close>

lemma selected_mark_count:
  assumes sel: "selection_inv cs [card_id ca, card_id cb]" and dist: "distinct (map card_id cs)"
    and cab: "ca \<in> set cs" "cb \<in> set cs" and neq: "card_id ca \<noteq> card_id cb"
  shows "length (filter isMatched (mark_matched (card_id ca) (card_id cb) cs)) =
         length (filter isMatched cs) + 2"
proof -
  have "\<forall>x\<in>set cs. card_id x = card_id ca \<or> card_id x = card_id cb \<longrightarrow> \<not> isMatched x"
    using selected_unmatched [OF sel] by auto
  then show ?thesis
    using cab neq by (intro matched_count_mark_matched [OF dist]) auto
qed

lemma fire_match_core:
  assumes inv: "world_inv w" and lk: "wlocked w" and play: "gameState w = PLAYING"
    and cab: "ca \<in> set (wcards w)" "cb \<in> set (wcards w)"
    and F: "wflipped w = [card_id ca, card_id cb]" and neq: "card_id ca \<noteq> card_id cb"
    and pend: "pending w = [checkForMatch (card_id ca) (card_id cb) (wcards w)]"
    and same: "emoji ca = emoji cb"
  shows "core_inv (fire 0 w)"
proof -
  have nst: "gameState w \<noteq> START" using play by simp
  note dealt = inv_dealt [OF inv nst]
  note parts = inv_locked_parts [OF inv lk F play]
  let ?cs = "mark_matched (card_id ca) (card_id cb) (wcards w)"
  have sel': "selection_inv ?cs []"
    by (rule selection_mark_matched [OF parts(1)])
  have pairs': "pairs_inv ?cs"
    by (rule pairs_mark_matched [OF parts(2) dealt(3) dealt(1) cab neq same])
  have cnt': "length (filter isMatched ?cs) = length (filter isMatched (wcards w)) + 2"
    by (rule selected_mark_count [OF parts(1) dealt(1) cab neq])
  show ?thesis
    using fire_resolves [OF dealt(1) cab pend] same play sel' pairs' cnt' parts(3-7) dealt
    by (simp add: world_inv_defs)
qed

lemma fire_mismatch_core:
  assumes inv: "world_inv w" and lk: "wlocked w" and play: "gameState w = PLAYING"
    and cab: "ca \<in> set (wcards w)" "cb \<in> set (wcards w)"
    and F: "wflipped w = [card_id ca, card_id cb]"
    and pend: "pending w = [checkForMatch (card_id ca) (card_id cb) (wcards w)]"
    and diff: "emoji ca \<noteq> emoji cb"
  shows "core_inv (fire 0 w)"
proof -
  have nst: "gameState w \<noteq> START" using play by simp
  note dealt = inv_dealt [OF inv nst]
  note parts = inv_locked_parts [OF inv lk F play]
  let ?cs = "flip_down (card_id ca) (card_id cb) (wcards w)"
  have sel': "selection_inv ?cs []"
    by (rule selection_flip_down [OF parts(1)])
  have pairs': "pairs_inv ?cs"
    by (rule pairs_flip_down [OF parts(2)])
  have cnt': "length (filter isMatched ?cs) = length (filter isMatched (wcards w))"
    and all': "list_all isMatched ?cs = list_all isMatched (wcards w)"
    using matched_count_same [OF map_fields_flip_down(3)]
      list_all_cong_map [OF map_fields_flip_down(3)] by simp_all
  show ?thesis
    using fire_resolves [OF dealt(1) cab pend] diff play sel' pairs' cnt' all' parts(3-7) dealt
    by (simp add: world_inv_defs)
qed

lemma step_fire:
  assumes inv: "world_inv w"
  shows "world_inv (step w (TimeoutFires k))"
proof (cases "k < length (pending w)")
  case False
  then have "fire k w = w" by (simp add: fire_def)
  with inv show ?thesis
    by (simp add: step_def settle_world_inv_id)
next
  case True
  have lk: "wlocked w"
  proof (rule ccontr)
    assume "\<not> wlocked w"
    with inv_unlocked [OF inv] True show False by simp
  qed
  obtain ca cb where play: "gameState w = PLAYING" and cab: "ca \<in> set (wcards w)" "cb \<in> set (wcards w)"
    and F: "wflipped w = [card_id ca, card_id cb]" and neq: "card_id ca \<noteq> card_id cb"
    and pend: "pending w = [checkForMatch (card_id ca) (card_id cb) (wcards w)]"
    by (rule inv_locked [OF inv lk])
  from True pend have k0: "k = 0" by simp
  have "core_inv (fire k w)"
    using k0 fire_match_core [OF inv lk play cab F neq pend]
      fire_mismatch_core [OF inv lk play cab F pend] by blast
  moreover have "bestMoves (stats (fire k w)) = load_best (storage (fire k w))"
    using k0 fire_resolves [OF inv_dealt(1) [OF inv] cab pend] play inv
    by (simp add: world_inv_def score_ok_def)
  ultimately show ?thesis
    by (simp add: step_def settle_world_inv)
qed

subsection \<open>The two buttons\<close>

lemma step_start_eq:
  assumes "world_inv w" "gameState w = START"
  shows "step w StartClick =
           w\<lparr>gameState := PLAYING, engine := fst (initializeBoard (rng w)),
             rng := snd (initializeBoard (rng w)), interval := True\<rparr>"
proof -
  from assms have "wcards w = []"
    by (simp add: world_inv_defs)
  with assms(2) show ?thesis
    by (simp add: step_def start_click_def has_start_button_def screen_of_def settle_PLAYING_empty)
qed

lemma step_start:
  assumes inv: "world_inv w"
  shows "world_inv (step w StartClick)"
proof (cases "gameState w = START")
  case True
  let ?e = "fst (initializeBoard (rng w))"
  note deal = initializeBoard_shape [of "rng w"]
  from deal(1) have ne: "cards ?e \<noteq> []"
    by (metis board_ids_not_Nil list.simps(8))
  from deal(5) have sel: "selection_inv (cards ?e) []" and pairs: "pairs_inv (cards ?e)"
    and nm: "filter isMatched (cards ?e) = []"
    by (auto simp: selection_inv_def pairs_inv_def filter_empty_conv)
  from deal(5) ne have "\<not> list_all isMatched (cards ?e)"
    by (cases "cards ?e") auto
  with inv True deal sel pairs nm show ?thesis
    by (simp add: step_start_eq [OF inv True] world_inv_defs)
next
  case False
  then have "start_click w = w"
    by (simp add: start_click_def has_start_button_def screen_of_def split: if_splits)
  with inv show ?thesis
    by (simp add: step_def settle_world_inv_id)
qed

lemma step_play_again_eq:
  assumes "world_inv w" "gameState w = GAME_OVER"
  shows "step w PlayAgainClick =
           w\<lparr>stats := (stats w)\<lparr>moves := 0, timer := 0\<rparr>, gameState := START,
             engine := (engine w)\<lparr>cards := [], flippedIds := [], isProcessing := False\<rparr>,
             interval := False\<rparr>"
  using assms(2)
  by (simp add: step_def play_again_click_def has_play_again_button_def screen_of_def
      resetGame_def settle_START)

lemma step_play_again:
  assumes inv: "world_inv w"
  shows "world_inv (step w PlayAgainClick)"
proof (cases "gameState w = GAME_OVER")
  case True
  with inv_game_over [OF inv True] inv show ?thesis
    by (auto simp: step_play_again_eq [OF inv True] world_inv_defs selection_inv_def pairs_inv_def)
next
  case False
  then have "play_again_click w = w"
    by (cases "gameState w") (simp_all add: play_again_click_def has_play_again_button_def screen_of_def)
  with inv show ?thesis
    by (simp add: step_def settle_world_inv_id)
qed

section \<open>Every reachable state satisfies the invariant\<close>

lemma step_world_inv: "world_inv w \<Longrightarrow> world_inv (step w ev)"
proof (cases ev)
  case (CardClick i)
  assume inv: "world_inv w"
  show ?thesis
  proof (cases "click_accepted w i")
    case True
    with inv CardClick show ?thesis by (simp add: step_click_accepted(2))
  next
    case False
    with inv CardClick show ?thesis by (simp add: step_click_rejected)
  qed
qed (simp_all add: step_start step_fire step_tick(2) step_play_again)

lemma reachable_world_inv: "reachable w \<Longrightarrow> world_inv w"
  by (induction rule: reachable.induct) (simp_all add: world_inv_init step_world_inv)

lemma reachable_run: "reachable w \<Longrightarrow> reachable (run w evs)"
proof (induction evs arbitrary: w)
  case Nil
  then show ?case by (simp add: run_def)
next
  case (Cons ev evs)
  from Cons.prems have "reachable (step w ev)" by (rule reachable.step)
  then have "reachable (run (step w ev) evs)" by (rule Cons.IH)
  then show ?case by (simp add: run_def)
qed

lemma reachable_init_run: "reachable (run (init_world stored r) evs)"
  by (rule reachable_run [OF reachable.init])

lemma run_Cons: "run w (ev # evs) = run (step w ev) evs"
  by (simp add: run_def)

section \<open>Frame lemmas: which fields each part writes\<close>

lemma apply_effects_score [simp]:
  "bestMoves (stats (apply_effects effs w)) = bestMoves (stats w)"
  "storage (apply_effects effs w) = storage w"
  "timer (stats (apply_effects effs w)) = timer (stats w)"
  by (induction effs arbitrary: w)
     (simp_all add: apply_effects_def, (case_tac a; simp add: inc_moves_def)+)

lemma handle_score [simp]:
  "bestMoves (stats (handle w ev)) = bestMoves (stats w)"
  "storage (handle w ev) = storage w"
  by (cases ev; simp add: start_click_def click_card_def fire_def play_again_click_def tick_def
        resetGame_def split: prod.splits)+

lemma settle_frame [simp]:
  "gameState (settle w) = gameState w"
  "moves (stats (settle w)) = moves (stats w)"
  "timer (stats (settle w)) = timer (stats w)"
  "pending (settle w) = pending w"
  by (simp_all add: settle_def game_over_effect_def split: prod.splits)

lemma settle_best:
  "bestMoves (stats (settle w)) =
     (if gameState w = GAME_OVER \<and> js_less (Num (moves (stats w))) (bestMoves (stats w))
      then Num (moves (stats w)) else bestMoves (stats w))"
  by (simp add: settle_def game_over_effect_def split: prod.splits)

text \<open>A best score that is \<open>NaN\<close> (an unparsable stored value) is never replaced, and the store is never written.\<close>

lemma step_best_NaN:
  assumes "bestMoves (stats w) = NaN"
  shows "bestMoves (stats (step w ev)) = NaN" and "storage (step w ev) = storage w"
  using assms by (simp_all add: step_def settle_def game_over_effect_def split: prod.splits)

lemma run_best_NaN:
  "bestMoves (stats w) = NaN \<Longrightarrow>
     bestMoves (stats (run w evs)) = NaN \<and> storage (run w evs) = storage w"
proof (induction evs arbitrary: w)
  case Nil
  then show ?case by (simp add: run_def)
next
  case (Cons ev evs)
  from Cons.IH [OF step_best_NaN(1) [OF Cons.prems]] step_best_NaN(2) [OF Cons.prems]
  show ?case by (simp add: run_Cons)
qed

text \<open>On the game-over screen every event either changes nothing or goes back to the start.\<close>

lemma handle_game_over:
  assumes "world_inv w" "gameState w = GAME_OVER"
  shows "handle w ev = w \<or> gameState (handle w ev) = START"
proof (cases ev)
  case (CardClick i)
  then show ?thesis
    using click_card_rejected [of w i] assms(2) by (simp add: click_accepted_def)
next
  case (TimeoutFires k)
  then show ?thesis
    using inv_game_over [OF assms] by (simp add: fire_def)
next
  case TimerTick
  have "\<not> interval w"
    using assms by (simp add: world_inv_def interval_ok_def)
  with TimerTick show ?thesis
    by simp
qed (use assms(2) in \<open>simp_all add: start_click_def has_start_button_def screen_of_def
       play_again_click_def has_play_again_button_def resetGame_def\<close>)

lemma step_best:
  assumes "world_inv w"
  shows "bestMoves (stats (step w ev)) =
     (if gameState w \<noteq> GAME_OVER \<and> gameState (step w ev) = GAME_OVER \<and>
         js_less (Num (moves (stats (step w ev)))) (bestMoves (stats w))
      then Num (moves (stats (step w ev))) else bestMoves (stats w))"
proof (cases "gameState w = GAME_OVER")
  case True
  from assms True have nl: "\<not> js_less (Num (moves (stats w))) (bestMoves (stats w))"
    unfolding world_inv_def score_ok_def by blast
  from handle_game_over [OF assms True, of ev] show ?thesis
  proof
    assume "handle w ev = w"
    with nl True show ?thesis by (simp add: step_def settle_best)
  next
    assume "gameState (handle w ev) = START"
    with True show ?thesis by (simp add: step_def settle_best)
  qed
next
  case False
  then show ?thesis
    by (simp add: step_def settle_best)
qed

text \<open>A write to the store is the game-over effect improving the best: it stores the new move count.\<close>

lemma step_storage_write:
  assumes "storage (step w ev) \<noteq> storage w"
  shows "gameState (step w ev) = GAME_OVER"
    and "js_less (Num (moves (stats (step w ev)))) (bestMoves (stats w))"
    and "storage (step w ev) = Some (string_of_int (moves (stats (step w ev))))"
    and "bestMoves (stats (step w ev)) = Num (moves (stats (step w ev)))"
  using assms
  by (simp_all add: step_def settle_def game_over_effect_def split: prod.splits if_splits)

section \<open>Moves and finished games along a run\<close>

text \<open>A completed two-card attempt: an accepted click on the second card of a pair.\<close>

definition completes_pair :: "world \<Rightarrow> event \<Rightarrow> bool" where
  "completes_pair w ev =
     (case ev of CardClick i \<Rightarrow> click_accepted w i \<and> length (flippedIds (engine w)) = 1
      | _ \<Rightarrow> False)"

lemma step_moves:
  assumes inv: "world_inv w" and ev: "ev \<noteq> PlayAgainClick"
  shows "moves (stats (step w ev)) = moves (stats w) + (if completes_pair w ev then 1 else 0)"
proof (cases ev)
  case (CardClick i)
  show ?thesis
  proof (cases "click_accepted w i")
    case True
    with inv CardClick show ?thesis
      by (simp add: step_click_accepted(1) click_card_accepted completes_pair_def inc_moves_def)
  next
    case False
    with inv CardClick show ?thesis
      by (simp add: step_click_rejected completes_pair_def)
  qed
next
  case (TimeoutFires k)
  then show ?thesis
    by (simp add: step_def fire_stats completes_pair_def)
qed (use ev in \<open>simp_all add: step_def start_click_def tick_def completes_pair_def\<close>)

fun pair_attempts :: "world \<Rightarrow> event list \<Rightarrow> nat" where
  "pair_attempts w [] = 0"
| "pair_attempts w (ev # evs) =
     (if completes_pair w ev then 1 else 0) + pair_attempts (step w ev) evs"

text \<open>The move counts at which the game entered the game-over screen along a run.\<close>

fun finish_moves :: "world \<Rightarrow> event list \<Rightarrow> int list" where
  "finish_moves w [] = []"
| "finish_moves w (ev # evs) =
     (if gameState w \<noteq> GAME_OVER \<and> gameState (step w ev) = GAME_OVER
      then [moves (stats (step w ev))] else []) @ finish_moves (step w ev) evs"

text \<open>The best of a starting value and a list of scores, in the order they were reached.\<close>

definition best_of :: "jsnum \<Rightarrow> int list \<Rightarrow> jsnum" where
  "best_of b ms = foldl (\<lambda>b m. if js_less (Num m) b then Num m else b) b ms"

text \<open>The best score along a run, from the single-step lemma \<open>step_best\<close>.\<close>

lemma run_best:
  "reachable w \<Longrightarrow> bestMoves (stats (run w evs)) = best_of (bestMoves (stats w)) (finish_moves w evs)"
proof (induction evs arbitrary: w)
  case Nil
  then show ?case by (simp add: run_def best_of_def)
next
  case (Cons ev evs)
  have r: "reachable (step w ev)" using Cons.prems by (rule reachable.step)
  note b = step_best [OF reachable_world_inv [OF Cons.prems], of ev]
  show ?case
    using Cons.IH [OF r] b by (simp add: run_Cons best_of_def)
qed

text \<open>From a number, \<open>best_of\<close> is the minimum; from \<open>NaN\<close> it stays \<open>NaN\<close>.\<close>

lemma best_of_Num: "best_of (Num b) ms = Num (Min (insert b (set ms)))"
proof (induction ms arbitrary: b)
  case Nil
  then show ?case by (simp add: best_of_def)
next
  case (Cons m ms)
  have "best_of (Num b) (m # ms) = best_of (Num (min m b)) ms"
    by (simp add: best_of_def min_def)
  also have "\<dots> = Num (Min (insert (min m b) (set ms)))"
    by (rule Cons.IH)
  also have "Min (insert (min m b) (set ms)) = Min (insert b (set (m # ms)))"
    by (cases "set ms = {}") (simp_all add: min.commute min.left_commute)
  finally show ?case .
qed

lemma inv_game_over_moves:
  assumes "world_inv w" "gameState w = GAME_OVER"
  shows "int PAIRS_COUNT \<le> moves (stats w)"
proof -
  from assms(1) have "completion_ok w" "board_shape w" "moves_ok w"
    by (simp_all add: world_inv_def core_inv_def)
  then have all: "list_all isMatched (wcards w)"
    and ids: "map card_id (wcards w) = board_ids"
    and cnt: "int (length (filter isMatched (wcards w))) + (if wlocked w then 2 else 0)
                \<le> 2 * moves (stats w)"
    using assms(2) by (simp_all add: completion_ok_def board_shape_def moves_ok_def)
  from all have "filter isMatched (wcards w) = wcards w"
    by (simp add: list_all_iff)
  moreover have "length (wcards w) = 16"
    using ids by (metis length_board_ids length_map)
  ultimately show ?thesis
    using cnt by (simp split: if_splits)
qed

lemma finish_moves_bound:
  "reachable w \<Longrightarrow> m \<in> set (finish_moves w evs) \<Longrightarrow> int PAIRS_COUNT \<le> m"
proof (induction evs arbitrary: w)
  case (Cons ev evs)
  have r: "reachable (step w ev)" using Cons.prems(1) by (rule reachable.step)
  from Cons.prems(2) Cons.IH [OF r] inv_game_over_moves [OF reachable_world_inv [OF r]]
  show ?case by (auto split: if_splits)
qed simp

end
