(* ===== verification/Liveness.thy ===== *)
theory Liveness
  imports Invariant
begin

text \<open>
  Progress of a game in play. \<open>next_move\<close> is the strategy of a player with perfect
  memory: let a pending callback fire; with one card face up, click its partner; with
  none, click the first unmatched card. \<open>solve\<close> plays it with a budget of events (fuel)
  and returns the events once the game is over. Every move lowers \<open>potential\<close> by one,
  three per remaining pair plus the stage of the current pair, so from every state in
  play that satisfies the invariant the budget \<open>3 * PAIRS_COUNT + 3\<close> is enough.
\<close>

abbreviation matched_count :: "world \<Rightarrow> nat" where
  "matched_count w \<equiv> length (filter isMatched (wcards w))"

text \<open>The pending callback is the match callback.\<close>

definition match_pending :: "world \<Rightarrow> bool" where
  "match_pending w \<longleftrightarrow> (\<exists>a b. pending w = [MatchT a b])"

text \<open>The position of the other card with the emoji of the card with id \<open>a\<close>.\<close>

definition partner_index :: "card list \<Rightarrow> string \<Rightarrow> nat" where
  "partner_index cs a =
     (case find (\<lambda>c. card_id c = a) cs of
        None \<Rightarrow> 0
      | Some ca \<Rightarrow> first_index (\<lambda>c. card_id c \<noteq> a \<and> emoji c = emoji ca) cs)"

definition next_move :: "world \<Rightarrow> event" where
  "next_move w =
     (if wlocked w then TimeoutFires 0
      else case wflipped w of
             [] \<Rightarrow> CardClick (first_index (\<lambda>c. \<not> isMatched c) (wcards w))
           | a # _ \<Rightarrow> CardClick (partner_index (wcards w) a))"

fun solve :: "nat \<Rightarrow> world \<Rightarrow> event list option" where
  "solve 0 w = (if gameState w = GAME_OVER then Some [] else None)"
| "solve (Suc n) w =
     (if gameState w = GAME_OVER then Some []
      else map_option (Cons (next_move w)) (solve n (step w (next_move w))))"

definition potential :: "world \<Rightarrow> nat" where
  "potential w =
     3 * ((length (wcards w) - matched_count w) div 2) +
     (if wlocked w then (if match_pending w then 0 else 3)
      else if wflipped w = [] then 2 else 1)"

section \<open>Single steps\<close>

lemma settle_engine_dealt:
  "gameState w \<noteq> START \<Longrightarrow> wcards w \<noteq> [] \<Longrightarrow> engine (settle w) = engine w"
  by (cases "gameState w") (simp_all add: settle_def engine_effect_def split: prod.splits)

lemma inv_length:
  "world_inv w \<Longrightarrow> gameState w \<noteq> START \<Longrightarrow> length (wcards w) = 16"
  by (metis world_inv_def core_inv_def board_shape_def length_board_ids length_map)

lemma inv_selected_card:
  assumes "world_inv w" "a \<in> set (wflipped w)"
  obtains c where "c \<in> set (wcards w)" "card_id c = a" "isFlipped c" "\<not> isMatched c"
proof -
  from assms(1) have sel: "selection_inv (wcards w) (wflipped w)"
    by (simp add: world_inv_defs)
  with assms(2) obtain c where "c \<in> set (wcards w)" "card_id c = a"
    by (auto simp: selection_inv_def)
  with selected_unmatched [OF sel] assms(2) that show thesis
    by blast
qed

text \<open>A locked board: the callback fires and unlocks it, matching the pair if it matches.\<close>

lemma step_fire_locked:
  assumes inv: "world_inv w" and lk: "wlocked w"
  defines "w' \<equiv> step w (TimeoutFires 0)"
  shows "gameState w' = GAME_OVER \<or>
         (gameState w' = PLAYING \<and> \<not> wlocked w' \<and> wflipped w' = [] \<and>
          matched_count w' = matched_count w + (if match_pending w then 2 else 0))"
proof -
  obtain ca cb where play: "gameState w = PLAYING" and cab: "ca \<in> set (wcards w)" "cb \<in> set (wcards w)"
    and F: "wflipped w = [card_id ca, card_id cb]" and neq: "card_id ca \<noteq> card_id cb"
    and pend: "pending w = [checkForMatch (card_id ca) (card_id cb) (wcards w)]"
    by (rule inv_locked [OF inv lk])
  have nst: "gameState w \<noteq> START" using play by simp
  note dealt = inv_dealt [OF inv nst]
  note eq = fire_resolves [OF dealt(1) cab pend]
  have mp: "match_pending w \<longleftrightarrow> emoji ca = emoji cb"
    using pend checkForMatch_found [OF dealt(1) cab] by (simp add: match_pending_def)
  from inv have sel: "selection_inv (wcards w) [card_id ca, card_id cb]"
    using F by (simp add: world_inv_defs)
  have w'eq: "w' = settle (fire 0 w)"
    by (simp add: w'_def step_def)
  show ?thesis
  proof (cases "gameState w' = GAME_OVER")
    case False
    then have g: "gameState (fire 0 w) = PLAYING"
      using w'eq eq play by (simp split: if_splits)
    have "wcards (fire 0 w) \<noteq> []"
      using eq dealt(2) by (simp split: if_splits)
    with g have e: "engine w' = engine (fire 0 w)"
      using w'eq by (simp add: settle_engine_dealt)
    have "matched_count w' = matched_count w + (if match_pending w then 2 else 0)"
    proof (cases "emoji ca = emoji cb")
      case True
      with selected_mark_count [OF sel dealt(1) cab neq] e eq mp show ?thesis by simp
    next
      case False
      with e eq mp show ?thesis
        by (simp add: matched_count_same [OF map_fields_flip_down(3)])
    qed
    with g e eq w'eq show ?thesis
      by (simp split: if_splits)
  qed simp
qed

text \<open>The partner of the one selected card is neither matched nor face up.\<close>

lemma partner_face_down:
  assumes sel: "selection_inv cs [card_id ca]" and pairs: "pairs_inv cs"
    and ca: "ca \<in> set cs" "\<not> isMatched ca" and cb: "cb \<in> set cs"
  shows "card_id cb \<noteq> card_id ca \<Longrightarrow> emoji cb = emoji ca \<Longrightarrow> \<not> isMatched cb \<and> \<not> isFlipped cb"
proof -
  assume neq: "card_id cb \<noteq> card_id ca" and em: "emoji cb = emoji ca"
  have umb: "\<not> isMatched cb"
    using pairs ca cb em unfolding pairs_inv_def by (metis (no_types))
  moreover have "\<not> isFlipped cb"
    using sel cb neq umb by (auto simp: selection_inv_def)
  ultimately show ?thesis ..
qed

text \<open>With one card face up, a click on its partner locks the board on a match.\<close>

lemma click_partner_at:
  assumes inv: "world_inv w" and play: "gameState w = PLAYING" and unl: "\<not> wlocked w"
    and F: "wflipped w = [a]" and ca: "ca \<in> set (wcards w)" "card_id ca = a"
    and i: "i < length (wcards w)" "card_id (wcards w ! i) \<noteq> a" "emoji (wcards w ! i) = emoji ca"
  defines "w' \<equiv> step w (CardClick i)"
  shows "world_inv w'" "gameState w' = PLAYING" "wlocked w'" "match_pending w'"
    "matched_count w' = matched_count w"
proof -
  have nst: "gameState w \<noteq> START" using play by simp
  note dealt = inv_dealt [OF inv nst]
  from inv have sel: "selection_inv (wcards w) [a]" and pairs: "pairs_inv (wcards w)"
    using F by (simp_all add: world_inv_defs)
  define cb where "cb = wcards w ! i"
  have cb: "cb \<in> set (wcards w)" "card_id cb \<noteq> a" "emoji cb = emoji ca"
    using i by (simp_all add: cb_def)
  have uma: "\<not> isMatched ca"
    using selected_unmatched [OF sel ca(1)] ca(2) by simp
  obtain umb: "\<not> isMatched cb" and ufb: "\<not> isFlipped cb"
    using partner_face_down [OF sel [folded ca(2)] pairs ca(1) uma cb(1)] cb(2,3) ca(2) by blast
  have acc: "click_accepted w i"
    using play unl i(1) umb ufb by (simp add: click_accepted_def cb_def)
  let ?cs = "flip_up (card_id cb) (wcards w)"
  have step_eq: "w' =
      w\<lparr>engine := (engine w)\<lparr>cards := ?cs, flippedIds := [a, card_id cb], isProcessing := True\<rparr>,
        stats := inc_moves (stats w),
        pending := [checkForMatch a (card_id cb) ?cs]\<rparr>"
    using step_click_accepted(1) [OF inv acc] click_card_accepted [OF acc] F
      inv_unlocked(1) [OF inv unl] by (simp add: w'_def cb_def)
  have ca': "ca \<in> set ?cs"
    using ca cb(2) by (force simp: set_map_where)
  have cb': "cb\<lparr>isFlipped := True\<rparr> \<in> set ?cs"
    using cb(1) by (force simp: set_map_where)
  have "distinct (map card_id ?cs)"
    using dealt(1) by simp
  from checkForMatch_found [OF this ca' cb'] cb(3) ca(2)
  have "checkForMatch a (card_id cb) ?cs = MatchT a (card_id cb)"
    by simp
  then show "match_pending w'"
    by (simp add: step_eq match_pending_def)
  show "matched_count w' = matched_count w"
    using matched_count_same [OF map_fields_flip_up(3)] by (simp add: step_eq)
  show "gameState w' = PLAYING" "wlocked w'"
    using play by (simp_all add: step_eq)
  show "world_inv w'"
    unfolding w'_def by (rule step_click_accepted(2) [OF inv acc])
qed

text \<open>With no card face up, a click on an unmatched card selects it.\<close>

lemma click_unmatched_at:
  assumes inv: "world_inv w" and play: "gameState w = PLAYING" and unl: "\<not> wlocked w"
    and F: "wflipped w = []" and i: "i < length (wcards w)" "\<not> isMatched (wcards w ! i)"
  defines "w' \<equiv> step w (CardClick i)"
  shows "world_inv w'" "gameState w' = PLAYING" "\<not> wlocked w'" "length (wflipped w') = 1"
    "matched_count w' = matched_count w"
proof -
  from inv have sel: "selection_inv (wcards w) []"
    using F by (simp add: world_inv_defs)
  have "\<not> isFlipped (wcards w ! i)"
    using sel i by (auto simp: selection_inv_def)
  then have acc: "click_accepted w i"
    using play unl i by (simp add: click_accepted_def)
  let ?c = "wcards w ! i"
  have step_eq: "w' =
      w\<lparr>engine := (engine w)\<lparr>cards := flip_up (card_id ?c) (wcards w), flippedIds := [card_id ?c]\<rparr>\<rparr>"
    using step_click_accepted(1) [OF inv acc] click_card_accepted [OF acc] F by (simp add: w'_def)
  show "matched_count w' = matched_count w"
    using matched_count_same [OF map_fields_flip_up(3)] by (simp add: step_eq)
  show "gameState w' = PLAYING" "\<not> wlocked w'" "length (wflipped w') = 1"
    using play unl by (simp_all add: step_eq)
  show "world_inv w'"
    unfolding w'_def by (rule step_click_accepted(2) [OF inv acc])
qed

section \<open>The strategy\<close>

text \<open>The index the strategy clicks is a card with the wanted property.\<close>

lemma next_move_unmatched:
  assumes inv: "world_inv w" and play: "gameState w = PLAYING"
  shows "first_index (\<lambda>c. \<not> isMatched c) (wcards w) < length (wcards w) \<and>
         \<not> isMatched (wcards w ! first_index (\<lambda>c. \<not> isMatched c) (wcards w))"
proof -
  have "wcards w \<noteq> []"
    using inv_dealt(2) [OF inv] play by simp
  with inv play have "\<not> list_all isMatched (wcards w)"
    by (simp add: world_inv_defs)
  then have "\<exists>c\<in>set (wcards w). \<not> isMatched c"
    by (simp add: list_all_iff)
  then show ?thesis
    by (rule first_index_found)
qed

lemma next_move_partner:
  assumes inv: "world_inv w" and play: "gameState w = PLAYING" and F: "wflipped w = [a]"
  obtains ca where "ca \<in> set (wcards w)" "card_id ca = a"
    "partner_index (wcards w) a < length (wcards w)"
    "card_id (wcards w ! partner_index (wcards w) a) \<noteq> a"
    "emoji (wcards w ! partner_index (wcards w) a) = emoji ca"
proof -
  have nst: "gameState w \<noteq> START" using play by simp
  note dealt = inv_dealt [OF inv nst]
  obtain ca where ca: "ca \<in> set (wcards w)" "card_id ca = a"
    using inv_selected_card [OF inv, of a] F by auto
  have dc: "distinct (wcards w)"
    using dealt(1) by (simp add: distinct_map)
  obtain cb where cb: "cb \<in> set (wcards w)" "cb \<noteq> ca" "emoji cb = emoji ca"
    using paired_partner [OF dealt(3) dc ca(1)] by blast
  have "card_id cb \<noteq> a"
    using distinct_map_inj_eq [OF dealt(1) cb(1) ca(1)] cb(2) ca(2) by auto
  with cb have "\<exists>c\<in>set (wcards w). card_id c \<noteq> a \<and> emoji c = emoji ca"
    by blast
  then have "first_index (\<lambda>c. card_id c \<noteq> a \<and> emoji c = emoji ca) (wcards w) < length (wcards w) \<and>
    (\<lambda>c. card_id c \<noteq> a \<and> emoji c = emoji ca)
      (wcards w ! first_index (\<lambda>c. card_id c \<noteq> a \<and> emoji c = emoji ca) (wcards w))"
    by (rule first_index_found)
  moreover have "find (\<lambda>c. card_id c = a) (wcards w) = Some ca"
    using find_by_id [OF dealt(1) ca(1)] ca(2) by simp
  ultimately show thesis
    using that [OF ca] by (simp add: partner_index_def)
qed

lemma half_pairs_step: "m + 2 \<le> (n::nat) \<Longrightarrow> (n - m) div 2 = Suc ((n - (m + 2)) div 2)"
proof -
  assume "m + 2 \<le> n"
  then have "n - m = (n - (m + 2)) + 2"
    by arith
  then show ?thesis
    by simp
qed

text \<open>A locked board: firing the callback lowers the potential by one.\<close>

lemma potential_locked:
  assumes inv: "world_inv w" and play: "gameState w = PLAYING" and lk: "wlocked w"
  defines "w' \<equiv> step w (TimeoutFires 0)"
  shows "gameState w' = GAME_OVER \<or> (gameState w' = PLAYING \<and> Suc (potential w') = potential w)"
proof -
  have inv': "world_inv w'"
    unfolding w'_def by (rule step_world_inv [OF inv])
  have len: "length (wcards w) = 16"
    using inv_length [OF inv] play by simp
  from step_fire_locked [OF inv lk, folded w'_def]
  show ?thesis
  proof (elim disjE conjE)
    assume g: "gameState w' = PLAYING" and u: "\<not> wlocked w'" and f: "wflipped w' = []"
      and m: "matched_count w' = matched_count w + (if match_pending w then 2 else 0)"
    have l1: "length (wcards w') = 16"
      using inv_length [OF inv'] g by simp
    then have l2: "matched_count w' \<le> 16"
      by (metis length_filter_le)
    have "Suc (potential w') = potential w"
    proof (cases "match_pending w")
      case True
      with m l2 have "matched_count w + 2 \<le> 16" by simp
      from half_pairs_step [OF this] m True have
        "(length (wcards w) - matched_count w) div 2 = Suc ((length (wcards w') - matched_count w') div 2)"
        using len l1 by simp
      with u f True lk show ?thesis
        by (simp add: potential_def)
    next
      case False
      with u f m lk len l1 show ?thesis
        by (simp add: potential_def)
    qed
    with g show ?thesis
      by simp
  qed simp
qed

text \<open>An unlocked board: the strategy's click lowers the potential by one.\<close>

lemma potential_unlocked:
  assumes inv: "world_inv w" and play: "gameState w = PLAYING" and unl: "\<not> wlocked w"
  defines "w' \<equiv> step w (next_move w)"
  shows "gameState w' = PLAYING \<and> Suc (potential w') = potential w"
proof -
  have len: "length (wcards w) = 16"
    using inv_length [OF inv] play by simp
  from inv_unlocked(2) [OF inv unl] have "wflipped w = [] \<or> (\<exists>a. wflipped w = [a])"
    by (cases "wflipped w") auto
  then show ?thesis
  proof
    assume F: "wflipped w = []"
    let ?i = "first_index (\<lambda>c. \<not> isMatched c) (wcards w)"
    have ev: "w' = step w (CardClick ?i)"
      using unl F by (simp add: w'_def next_move_def)
    note s = click_unmatched_at [OF inv play unl F conjunct1 [OF next_move_unmatched [OF inv play]]
        conjunct2 [OF next_move_unmatched [OF inv play]], folded ev]
    from s(4) have "wflipped w' \<noteq> []" by auto
    with s(2,3,5) unl F len inv_length [OF s(1)] show ?thesis
      by (simp add: potential_def)
  next
    assume "\<exists>a. wflipped w = [a]"
    then obtain a where F: "wflipped w = [a]" by blast
    obtain ca where ca: "ca \<in> set (wcards w)" "card_id ca = a"
      and i: "partner_index (wcards w) a < length (wcards w)"
        "card_id (wcards w ! partner_index (wcards w) a) \<noteq> a"
        "emoji (wcards w ! partner_index (wcards w) a) = emoji ca"
      by (rule next_move_partner [OF inv play F])
    have ev: "w' = step w (CardClick (partner_index (wcards w) a))"
      using unl F by (simp add: w'_def next_move_def)
    note s = click_partner_at [OF inv play unl F ca i, folded ev]
    with unl F len inv_length [OF s(1)] show ?thesis
      by (simp add: potential_def)
  qed
qed

lemma potential_step:
  assumes inv: "world_inv w" and play: "gameState w = PLAYING"
  defines "w' \<equiv> step w (next_move w)"
  shows "world_inv w' \<and> (gameState w' = GAME_OVER \<or>
           (gameState w' = PLAYING \<and> Suc (potential w') = potential w))"
proof -
  have "world_inv w'"
    unfolding w'_def by (rule step_world_inv [OF inv])
  moreover have "gameState w' = GAME_OVER \<or> (gameState w' = PLAYING \<and> Suc (potential w') = potential w)"
  proof (cases "wlocked w")
    case True
    then have "next_move w = TimeoutFires 0"
      by (simp add: next_move_def)
    with potential_locked [OF inv play True] show ?thesis
      by (simp add: w'_def)
  next
    case False
    with potential_unlocked [OF inv play False] show ?thesis
      by (simp add: w'_def)
  qed
  ultimately show ?thesis ..
qed

section \<open>The strategy finishes the game\<close>

lemma solve_sound:
  "solve n w = Some evs \<Longrightarrow> gameState (run w evs) = GAME_OVER \<and> length evs \<le> n"
proof (induction n w arbitrary: evs rule: solve.induct)
  case (1 w)
  then show ?case by (simp add: run_def split: if_splits)
next
  case (2 n w)
  show ?case
  proof (cases "gameState w = GAME_OVER")
    case True
    with "2.prems" show ?thesis by (simp add: run_def)
  next
    case False
    with "2.prems" obtain evs' where "solve n (step w (next_move w)) = Some evs'"
      and "evs = next_move w # evs'"
      by auto
    with "2.IH" [OF False] show ?thesis
      by (simp add: run_Cons)
  qed
qed

text \<open>A locked board holds two unmatched cards, so the potential of a state in play is positive.\<close>

lemma potential_pos:
  assumes inv: "world_inv w" and play: "gameState w = PLAYING"
  shows "0 < potential w"
proof (cases "wlocked w")
  case True
  obtain ca cb where cab: "ca \<in> set (wcards w)" "cb \<in> set (wcards w)"
    and neq: "card_id ca \<noteq> card_id cb" and um: "\<not> isMatched ca" "\<not> isMatched cb"
    by (rule inv_locked [OF inv True])
  have "distinct (filter (\<lambda>c. \<not> isMatched c) (wcards w))"
    using inv_dealt(1) [OF inv] play by (simp add: distinct_map)
  moreover have "{ca, cb} \<subseteq> set (filter (\<lambda>c. \<not> isMatched c) (wcards w))"
    using cab um by auto
  ultimately have "card {ca, cb} \<le> length (filter (\<lambda>c. \<not> isMatched c) (wcards w))"
    by (metis card_mono distinct_card finite_set)
  moreover have "ca \<noteq> cb"
    using neq by blast
  then have "card {ca, cb} = 2"
    by simp
  moreover have "length (filter isMatched (wcards w)) + length (filter (\<lambda>c. \<not> isMatched c) (wcards w)) =
      length (wcards w)"
    by (rule sum_length_filter_compl)
  ultimately have "2 \<le> length (wcards w) - matched_count w"
    by linarith
  then show ?thesis
    by (simp add: potential_def)
qed (simp add: potential_def)

lemma solve_complete:
  "world_inv w \<Longrightarrow> gameState w = PLAYING \<Longrightarrow> potential w \<le> n \<Longrightarrow> solve n w \<noteq> None"
proof (induction n arbitrary: w)
  case 0
  with potential_pos [OF 0(1,2)] show ?case by simp
next
  case (Suc n)
  note s = potential_step [OF Suc.prems(1,2)]
  show ?case
  proof (cases "gameState (step w (next_move w)) = GAME_OVER")
    case True
    with Suc.prems(2) show ?thesis
      by (cases n) simp_all
  next
    case False
    with s have "world_inv (step w (next_move w))" "gameState (step w (next_move w)) = PLAYING"
      "potential (step w (next_move w)) \<le> n"
      using Suc.prems(3) by auto
    from Suc.IH [OF this] Suc.prems(2) show ?thesis
      by simp
  qed
qed

lemma potential_bound:
  assumes "world_inv w" "gameState w = PLAYING"
  shows "potential w \<le> 3 * PAIRS_COUNT + 3"
proof -
  have "length (wcards w) = 16"
    using inv_length [OF assms(1)] assms(2) by simp
  then have "(length (wcards w) - matched_count w) div 2 \<le> 8"
    by linarith
  then show ?thesis
    by (simp add: potential_def)
qed

lemma solve_finishes:
  assumes "world_inv w" "gameState w = PLAYING"
  obtains evs where "solve (3 * PAIRS_COUNT + 3) w = Some evs"
    "gameState (run w evs) = GAME_OVER" "length evs \<le> 3 * PAIRS_COUNT + 3"
proof -
  from solve_complete [OF assms potential_bound [OF assms]]
  obtain evs where "solve (3 * PAIRS_COUNT + 3) w = Some evs"
    by blast
  with solve_sound [OF this] that show thesis
    by blast
qed

end
