(* ===== verification/Deferred.thy ===== *)
theory Deferred
  imports Liveness
begin

text \<open>
  The order in which React 18 runs the program's code. A click is a discrete event: the
  render it causes is synchronous and the passive effects of that render run before the
  browser takes the next event. A \<^verbatim>\<open>setTimeout\<close> or \<^verbatim>\<open>setInterval\<close> callback is not:
  its updates are rendered in the default lane and the passive effects of that render
  are only scheduled, so another macrotask may run before them. This theory models that
  order (\<open>astep\<close>), proves that it coincides with the atomic semantics of the system
  theory when the effects run right after every callback, and that otherwise the only
  observable difference is the clock of a finished game.
\<close>

datatype aevent = Ev event | FlushEffects

text \<open>Clicks are discrete events; the two kinds of timer callback are not.\<close>

fun discrete :: "event \<Rightarrow> bool" where
  "discrete (TimeoutFires k) = False"
| "discrete TimerTick = False"
| "discrete ev = True"

text \<open>
  A state of the scheduler: the committed world and whether the passive effects of its
  last render are still to run. Running them is the effect pass \<open>settle\<close>; each effect
  reads the values of the render it belongs to, so running them before the next
  discrete update is processed is exact.
\<close>

type_synonym sched = "world \<times> bool"

definition flush :: "sched \<Rightarrow> world" where
  "flush s = (if snd s then settle (fst s) else fst s)"

fun astep :: "sched \<Rightarrow> aevent \<Rightarrow> sched" where
  "astep s (Ev ev) =
     (if discrete ev then (step (flush s) ev, False) else (handle (fst s) ev, True))"
| "astep s FlushEffects = (flush s, False)"

definition arun :: "sched \<Rightarrow> aevent list \<Rightarrow> sched" where
  "arun s aevs = foldl astep s aevs"

text \<open>The schedule in which the effects of every callback run before the next event.\<close>

fun eager :: "event list \<Rightarrow> aevent list" where
  "eager [] = []"
| "eager (ev # evs) = (if discrete ev then [Ev ev] else [Ev ev, FlushEffects]) @ eager evs"

fun events_of :: "aevent list \<Rightarrow> event list" where
  "events_of [] = []"
| "events_of (Ev ev # aevs) = ev # events_of aevs"
| "events_of (FlushEffects # aevs) = events_of aevs"

text \<open>The world with its clock set to \<open>t\<close>: the one field the two schedules may disagree on.\<close>

definition set_timer :: "int \<Rightarrow> world \<Rightarrow> world" where
  "set_timer t w = w\<lparr>stats := (stats w)\<lparr>timer := t\<rparr>\<rparr>"

text \<open>
  The new clock after a handler: the interval adds a second, \<^verbatim>\<open>Play Again\<close> resets it,
  nothing else touches it.
\<close>

definition clock_after :: "world \<Rightarrow> event \<Rightarrow> int \<Rightarrow> int" where
  "clock_after w ev t =
     (if ev = TimerTick \<and> interval w then t + 1
      else if ev = PlayAgainClick \<and> has_play_again_button (gameState w) then 0 else t)"

text \<open>
  \<open>lag t v\<close>: a clock reading \<open>t\<close> agrees with the atomic world \<open>v\<close>, or runs ahead of it
  on the game-over screen.
\<close>

definition lag :: "int \<Rightarrow> world \<Rightarrow> bool" where
  "lag t v \<longleftrightarrow> t = timer (stats v) \<or> gameState v = GAME_OVER \<and> timer (stats v) \<le> t"

text \<open>
  The simulation relation: the deferred state, once its effects run, is the atomic world
  up to the clock, and a state whose effects are due either has none left to do or is a
  finished game with no timeout pending.
\<close>

definition due_ok :: "sched \<Rightarrow> bool" where
  "due_ok s \<longleftrightarrow>
     (snd s \<longrightarrow> settle (fst s) = fst s \<or> gameState (fst s) = GAME_OVER \<and> pending (fst s) = [])"

definition sim :: "sched \<Rightarrow> world \<Rightarrow> bool" where
  "sim s v \<longleftrightarrow> reachable v \<and> due_ok s \<and> (\<exists>t. flush s = set_timer t v \<and> lag t v)"

text \<open>The atomic counterpart of a scheduler event; running the effects is no event there.\<close>

fun next_world :: "world \<Rightarrow> aevent \<Rightarrow> world" where
  "next_world v (Ev ev) = step v ev"
| "next_world v FlushEffects = v"

section \<open>The effect pass and the handlers do not read the clock\<close>

lemma set_timer_simps [simp]:
  "gameState (set_timer t w) = gameState w" "engine (set_timer t w) = engine w"
  "pending (set_timer t w) = pending w" "interval (set_timer t w) = interval w"
  "storage (set_timer t w) = storage w" "rng (set_timer t w) = rng w"
  "timer (stats (set_timer t w)) = t"
  "set_timer t (set_timer t' w) = set_timer t w"
  "set_timer (timer (stats w)) w = w"
  by (simp_all add: set_timer_def)

lemma settle_set_timer: "settle (set_timer t w) = set_timer t (settle w)"
  by (simp add: settle_def set_timer_def game_over_effect_def split: prod.splits)

lemma apply_effects_set_timer:
  "apply_effects effs (set_timer t w) = set_timer t (apply_effects effs w)"
proof (induction effs arbitrary: w)
  case Nil
  then show ?case by (simp add: apply_effects_def)
next
  case (Cons e effs)
  have "apply_effect e (set_timer t w) = set_timer t (apply_effect e w)"
    by (cases e) (simp_all add: set_timer_def inc_moves_def)
  with Cons show ?case by (simp add: apply_effects_def)
qed

lemma set_timer_update:
  "(set_timer t w)\<lparr>engine := e\<rparr> = set_timer t (w\<lparr>engine := e\<rparr>)"
  "(set_timer t w)\<lparr>pending := q\<rparr> = set_timer t (w\<lparr>pending := q\<rparr>)"
  "(set_timer t w)\<lparr>gameState := g\<rparr> = set_timer t (w\<lparr>gameState := g\<rparr>)"
  by (simp_all add: set_timer_def)

lemma click_card_set_timer: "click_card i (set_timer t w) = set_timer t (click_card i w)"
  by (simp add: click_card_def set_timer_update apply_effects_set_timer split: prod.splits)

lemma fire_set_timer: "fire k (set_timer t w) = set_timer t (fire k w)"
  by (simp add: fire_def Let_def set_timer_update apply_effects_set_timer split: prod.splits)

lemma handle_set_timer:
  "handle (set_timer t w) ev = set_timer (clock_after w ev t) (handle w ev)"
  by (cases ev) (simp_all add: clock_after_def click_card_set_timer fire_set_timer
      start_click_def play_again_click_def resetGame_def tick_def set_timer_update,
      simp_all add: set_timer_def)

lemma step_set_timer:
  "step (set_timer t w) ev = set_timer (clock_after w ev t) (step w ev)"
  by (simp add: step_def handle_set_timer settle_set_timer)

section \<open>A callback leaves little for the effects to do\<close>

text \<open>
  From a settled state, the effects scheduled by a timer callback change nothing, except
  after the callback that ends the game: then they record the best score and clear the
  interval, and no timeout is left.
\<close>

lemma callback_settled:
  assumes inv: "world_inv v" and ev: "\<not> discrete ev"
  shows "settle (handle v ev) = handle v ev \<or>
         gameState (handle v ev) = GAME_OVER \<and> pending (handle v ev) = []"
proof (cases ev)
  case TimerTick
  have "interval v \<longleftrightarrow> gameState v = PLAYING"
    using inv by (simp add: world_inv_def interval_ok_def)
  with step_tick(1) [OF inv, unfolded step_def] TimerTick show ?thesis
    by (simp split: if_splits)
next
  case (TimeoutFires k)
  show ?thesis
  proof (cases "k < length (pending v)")
    case False
    then have "fire k v = v" by (simp add: fire_def)
    with inv TimeoutFires show ?thesis by (simp add: settle_world_inv_id)
  next
    case True
    have lk: "wlocked v"
      using inv_unlocked(1) [OF inv] True by (cases "wlocked v") auto
    obtain ca cb where play: "gameState v = PLAYING"
      and cab: "ca \<in> set (wcards v)" "cb \<in> set (wcards v)"
      and pend: "pending v = [checkForMatch (card_id ca) (card_id cb) (wcards v)]"
      by (rule inv_locked [OF inv lk])
    from True pend have k0: "k = 0" by simp
    have iv: "interval v" using inv play by (simp add: world_inv_def interval_ok_def)
    have dist: "distinct (map card_id (wcards v))"
      using inv_dealt [OF inv] play by simp
    have ne: "wcards v \<noteq> []" using cab by auto
    show ?thesis
      using fire_resolves [OF dist cab pend] play iv ne TimeoutFires k0
      by (simp add: settle_PLAYING_dealt interval_update_same)
  qed
qed (use ev in simp_all)

section \<open>The deferred schedule simulates the atomic one\<close>

lemma handle_game_over_fixed:
  assumes "world_inv v" "gameState v = GAME_OVER" "ev \<noteq> PlayAgainClick"
  shows "handle v ev = v"
proof (cases ev)
  case (CardClick i)
  then show ?thesis
    using click_card_rejected [of v i] assms(2) by (simp add: click_accepted_def)
next
  case (TimeoutFires k)
  then show ?thesis
    using inv_game_over [OF assms(1,2)] by (simp add: fire_def)
next
  case TimerTick
  then show ?thesis
    using assms(1,2) by (simp add: world_inv_def interval_ok_def)
qed (use assms(2,3) in \<open>simp_all add: start_click_def has_start_button_def screen_of_def\<close>)

lemma handle_clock: "timer (stats (handle v ev)) = clock_after v ev (timer (stats v))"
proof -
  have "handle v ev = set_timer (clock_after v ev (timer (stats v))) (handle v ev)"
    using handle_set_timer [of "timer (stats v)" v ev] by simp
  then show ?thesis
    by (metis set_timer_simps(7))
qed

lemma step_clock: "timer (stats (step v ev)) = clock_after v ev (timer (stats v))"
  by (simp add: step_def handle_clock)

lemma lag_step:
  assumes inv: "world_inv v" and lg: "lag t v"
  shows "lag (clock_after v ev t) (step v ev)"
proof (cases "t = timer (stats v)")
  case True
  then show ?thesis by (simp add: lag_def step_clock)
next
  case False
  with lg have go: "gameState v = GAME_OVER" "timer (stats v) \<le> t"
    by (auto simp: lag_def)
  show ?thesis
  proof (cases "ev = PlayAgainClick")
    case True
    with go show ?thesis
      by (simp add: lag_def step_clock clock_after_def has_play_again_button_def screen_of_def)
  next
    case False
    have "step v ev = v"
      using handle_game_over_fixed [OF inv go(1) False] inv by (simp add: step_def settle_world_inv_id)
    moreover have "clock_after v ev t = t"
      using False inv go(1) by (simp add: clock_after_def world_inv_def interval_ok_def)
    ultimately show ?thesis
      using lg by simp
  qed
qed

text \<open>A callback on the game-over screen, before the effects of the last render ran.\<close>

lemma callback_game_over:
  assumes "\<not> discrete ev" "pending w = []"
  shows "handle w ev = set_timer (clock_after w ev (timer (stats w))) w"
    and "timer (stats w) \<le> clock_after w ev (timer (stats w))"
  using assms by (cases ev; simp add: fire_def clock_after_def tick_def set_timer_def)+

lemma sim_flush: "sim s v \<Longrightarrow> sim (astep s FlushEffects) v"
  by (auto simp: sim_def due_ok_def flush_def)

text \<open>A click: the due effects run first, then the step, as in the atomic semantics.\<close>

lemma sim_click:
  assumes "sim s v" "discrete ev"
  shows "sim (astep s (Ev ev)) (step v ev)"
proof -
  from assms(1) obtain t where reach: "reachable v" and fl: "flush s = set_timer t v"
    and lg: "lag t v"
    by (auto simp: sim_def)
  have "flush (astep s (Ev ev)) = set_timer (clock_after v ev t) (step v ev)"
    using assms(2) fl by (simp add: flush_def step_set_timer)
  then show ?thesis
    using reachable.step [OF reach] assms(2) lag_step [OF reachable_world_inv [OF reach] lg, of ev]
    by (auto simp: sim_def due_ok_def)
qed

text \<open>A callback on a state whose effects have nothing left to do.\<close>

lemma sim_callback_settled:
  assumes reach: "reachable v" and w: "fst s = set_timer t v" and lg: "lag t v"
    and cb: "\<not> discrete ev"
  shows "sim (astep s (Ev ev)) (step v ev)"
proof -
  have inv: "world_inv v" using reach by (rule reachable_world_inv)
  let ?t' = "clock_after v ev t"
  have h: "handle (fst s) ev = set_timer ?t' (handle v ev)"
    using w by (simp add: handle_set_timer)
  have "flush (astep s (Ev ev)) = set_timer ?t' (step v ev)"
    using cb h by (simp add: flush_def step_def settle_set_timer)
  moreover have "due_ok (astep s (Ev ev))"
    using callback_settled [OF inv cb] cb h by (auto simp: due_ok_def settle_set_timer)
  ultimately show ?thesis
    unfolding sim_def using reachable.step [OF reach] lag_step [OF inv lg, of ev] by metis
qed

text \<open>A callback on a finished game whose effects are still due: only the clock moves.\<close>

lemma sim_callback_finished:
  assumes reach: "reachable v" and lg: "lag t v" and sf: "settle (fst s) = set_timer t v"
    and d: "snd s" and go: "gameState (fst s) = GAME_OVER" "pending (fst s) = []"
    and cb: "\<not> discrete ev"
  shows "sim (astep s (Ev ev)) (step v ev)"
proof -
  have inv: "world_inv v" using reach by (rule reachable_world_inv)
  from sf have gv: "gameState v = GAME_OVER" and t: "t = timer (stats (fst s))"
    using go settle_frame(1,3) [of "fst s"] by (metis set_timer_simps(1), metis set_timer_simps(7))
  have "ev \<noteq> PlayAgainClick" using cb by auto
  then have sv: "step v ev = v"
    using handle_game_over_fixed [OF inv gv] inv by (simp add: step_def settle_world_inv_id)
  note h = callback_game_over [OF cb go(2)]
  have "flush (astep s (Ev ev)) = set_timer (clock_after (fst s) ev t) v"
    using cb h(1) sf t by (simp add: flush_def settle_set_timer)
  moreover have "lag (clock_after (fst s) ev t) v"
    using lg h(2) gv t by (auto simp: lag_def)
  moreover have "due_ok (astep s (Ev ev))"
    using cb h(1) go t by (simp add: due_ok_def)
  ultimately show ?thesis
    unfolding sim_def sv using reach by metis
qed

lemma sim_astep:
  assumes "sim s v"
  shows "sim (astep s a) (next_world v a)"
proof (cases a)
  case FlushEffects
  then show ?thesis using sim_flush [OF assms] by simp
next
  case (Ev ev)
  from assms obtain t where reach: "reachable v" and due: "due_ok s"
    and fl: "flush s = set_timer t v" and lg: "lag t v"
    by (auto simp: sim_def)
  consider "discrete ev" | "\<not> discrete ev" "snd s \<longrightarrow> settle (fst s) = fst s"
    | "\<not> discrete ev" "snd s" "gameState (fst s) = GAME_OVER" "pending (fst s) = []"
    using due by (auto simp: due_ok_def)
  then show ?thesis
  proof cases
    case 1
    with sim_click [OF assms] Ev show ?thesis by simp
  next
    case 2
    then have "fst s = set_timer t v"
      using fl by (simp add: flush_def split: if_splits)
    with sim_callback_settled [OF reach _ lg 2(1)] Ev show ?thesis by simp
  next
    case 3
    then have "settle (fst s) = set_timer t v"
      using fl by (simp add: flush_def)
    with sim_callback_finished [OF reach lg _ 3(2-4) 3(1)] Ev show ?thesis by simp
  qed
qed

lemma events_of_append [simp]: "events_of (xs @ ys) = events_of xs @ events_of ys"
  by (induction xs rule: events_of.induct) simp_all

lemma run_events_snoc:
  "run v (events_of (aevs @ [a])) = next_world (run v (events_of aevs)) a"
  by (cases a) (simp_all add: run_def step_def)

lemma sim_arun_from: "sim s v \<Longrightarrow> sim (arun s aevs) (run v (events_of aevs))"
proof (induction aevs arbitrary: s v)
  case Nil
  then show ?case by (simp add: arun_def run_def)
next
  case (Cons a aevs)
  from Cons.IH [OF sim_astep [OF Cons.prems, of a]] show ?case
    by (cases a) (simp_all add: arun_def run_def step_def)
qed

lemma events_of_eager [simp]: "events_of (eager evs) = evs"
  by (induction evs) simp_all

lemma sim_phase: "sim s v \<Longrightarrow> gameState (flush s) = gameState v"
  by (auto simp: sim_def)

lemma sim_arun: "sim (arun (init_world stored r, False) aevs) (run (init_world stored r) (events_of aevs))"
proof (induction aevs rule: rev_induct)
  case Nil
  have "lag (timer (stats (init_world stored r))) (init_world stored r)"
    by (simp add: lag_def)
  then show ?case
    by (auto simp: sim_def due_ok_def flush_def arun_def run_def intro: reachable.init
        exI [of _ "timer (stats (init_world stored r))"])
next
  case (snoc a aevs)
  from sim_astep [OF snoc.IH, of a] show ?case
    unfolding run_events_snoc by (simp add: arun_def)
qed

section \<open>The counters grow by at most one per event\<close>

text \<open>
  Moves and seconds are JavaScript numbers, exact as integers below \<open>2^53\<close>; the model
  reads them as unbounded integers. Each event adds at most one to either, so a run
  would need \<open>2^53\<close> events to leave the exact range.
\<close>

lemma clock_after_bounds: "0 \<le> t \<Longrightarrow> 0 \<le> clock_after w ev t \<and> clock_after w ev t \<le> t + 1"
  by (simp add: clock_after_def)

lemma flush_clock [simp]: "timer (stats (flush s)) = timer (stats (fst s))"
  by (simp add: flush_def)

lemma astep_clock:
  assumes "0 \<le> timer (stats (fst s))"
  shows "0 \<le> timer (stats (fst (astep s a))) \<and> timer (stats (fst (astep s a))) \<le> timer (stats (fst s)) + 1"
  using assms clock_after_bounds [OF assms, of "flush s"] clock_after_bounds [OF assms, of "fst s"]
  by (cases a) (auto simp: step_clock handle_clock)

lemma arun_clock:
  "0 \<le> timer (stats (fst (arun (init_world stored r, False) aevs))) \<and>
   timer (stats (fst (arun (init_world stored r, False) aevs))) \<le> int (length aevs)"
proof (induction aevs rule: rev_induct)
  case Nil
  then show ?case by (simp add: arun_def init_world_eq initial_stats_def)
next
  case (snoc a aevs)
  with astep_clock [of "arun (init_world stored r, False) aevs" a] show ?case
    by (simp add: arun_def)
qed

lemma step_counters_le:
  assumes "world_inv w"
  shows "moves (stats (step w ev)) \<le> moves (stats w) + 1"
    and "timer (stats (step w ev)) \<le> timer (stats w) + 1"
proof -
  have nn: "0 \<le> moves (stats w)" "0 \<le> timer (stats w)"
    using assms by (simp_all add: world_inv_def core_inv_def moves_ok_def split: if_splits)
  show "moves (stats (step w ev)) \<le> moves (stats w) + 1"
  proof (cases "ev = PlayAgainClick")
    case True
    with nn show ?thesis
      by (simp add: step_def play_again_click_def resetGame_def split: prod.splits)
  qed (simp add: step_moves [OF assms])
  show "timer (stats (step w ev)) \<le> timer (stats w) + 1"
    using clock_after_bounds [OF nn(2), of w ev] by (simp add: step_clock)
qed

lemma run_counters_le:
  "reachable w \<Longrightarrow>
     moves (stats (run w evs)) \<le> moves (stats w) + int (length evs) \<and>
     timer (stats (run w evs)) \<le> timer (stats w) + int (length evs)"
proof (induction evs arbitrary: w)
  case Nil
  then show ?case by (simp add: run_def)
next
  case (Cons ev evs)
  have "reachable (step w ev)" using Cons.prems by (rule reachable.step)
  with Cons.IH [of "step w ev"] step_counters_le [OF reachable_world_inv [OF Cons.prems], of ev]
  show ?case by (simp add: run_Cons)
qed

section \<open>The interval and the clock under the deferred schedule\<close>

text \<open>
  Outside the atomic semantics an interval can be registered on the game-over screen:
  between the callback that ends the game and the run of its effects. It is registered
  in every state in play, and outside play only in that window.
\<close>

lemma fire_interval [simp]: "interval (fire k w) = interval w"
proof -
  have "interval (apply_effects effs w) = interval w" for effs w
    by (induction effs arbitrary: w) (simp_all add: apply_effects_def, (case_tac a; simp)+)
  then show ?thesis
    by (simp add: fire_def Let_def split: prod.splits)
qed

lemma astep_tick:
  "fst (astep s (Ev TimerTick)) =
     (if interval (fst s) then set_timer (timer (stats (fst s)) + 1) (fst s) else fst s)"
  by (simp add: tick_def set_timer_def)

lemma sim_interval:
  assumes "sim s v"
  shows "gameState (fst s) = PLAYING \<Longrightarrow> interval (fst s)"
    and "interval (fst s) \<Longrightarrow> gameState (fst s) = PLAYING \<or> snd s \<and> gameState (fst s) = GAME_OVER"
proof -
  from assms obtain t where reach: "reachable v" and due: "due_ok s"
    and fl: "flush s = set_timer t v"
    by (auto simp: sim_def)
  have iv: "interval v \<longleftrightarrow> gameState v = PLAYING"
    using reachable_world_inv [OF reach] by (simp add: world_inv_def interval_ok_def)
  consider "fst s = set_timer t v" | "snd s" "gameState (fst s) = GAME_OVER"
    using due fl by (auto simp: due_ok_def flush_def split: if_splits)
  note c = this
  show "gameState (fst s) = PLAYING \<Longrightarrow> interval (fst s)"
    using iv by (cases rule: c) simp_all
  show "interval (fst s) \<Longrightarrow> gameState (fst s) = PLAYING \<or> snd s \<and> gameState (fst s) = GAME_OVER"
    using iv by (cases rule: c) simp_all
qed

lemma world_inv_set_timer:
  assumes "world_inv v" "lag t v"
  shows "world_inv (set_timer t v)"
  using assms by (auto simp: lag_def set_timer_def world_inv_defs)

end
