(* ===== verification/Phases.thy ===== *)
theory Phases
  imports Liveness
begin

text \<open>
  The phase machine of the specification (section 4.1): START goes to PLAYING by the
  start button, PLAYING to GAME_OVER when the board is complete, which in the program
  happens in a settle callback, and GAME_OVER back to START by \<^verbatim>\<open>Play Again\<close>. The
  specification's reset from play has no control in the program (see the root theory),
  so it is not a move here. This theory proves that the application changes its phase
  only along these moves, and that no handler changes the layout of the board (the id
  and emoji at each position): only the effect pass deals or clears it.
\<close>

inductive phase_move :: "GameState \<Rightarrow> event \<Rightarrow> GameState \<Rightarrow> bool" where
  start: "phase_move START StartClick PLAYING"
| finish: "phase_move PLAYING (TimeoutFires k) GAME_OVER"
| again: "phase_move GAME_OVER PlayAgainClick START"

inductive_cases phase_moveE: "phase_move g ev g'"
inductive_simps phase_move_simps: "phase_move g ev g'"

code_pred phase_move .

section \<open>Which handler writes the phase\<close>

lemma click_card_phase [simp]: "gameState (click_card i w) = gameState w"
proof (cases "click_accepted w i")
  case True
  then show ?thesis by (simp add: click_card_accepted)
qed (simp add: click_card_rejected)

lemma fire_phase: "gameState (fire k w) = gameState w \<or> gameState (fire k w) = GAME_OVER"
proof (cases "k < length (pending w)")
  case True
  then show ?thesis
    by (cases "pending w ! k")
       (simp_all add: fire_def handleMatch_def apply_effects_def Let_def)
qed (simp add: fire_def)

lemma step_phase:
  assumes inv: "world_inv w" and ch: "gameState (step w ev) \<noteq> gameState w"
  shows "phase_move (gameState w) ev (gameState (step w ev))"
proof (cases ev)
  case (TimeoutFires k)
  have "pending w \<noteq> []"
    using ch TimeoutFires by (auto simp: step_def fire_def)
  then have "gameState w = PLAYING"
    using inv inv_game_over(3) [OF inv] by (cases "gameState w") (auto simp: world_inv_defs)
  with fire_phase [of k w] ch TimeoutFires show ?thesis
    by (auto simp: step_def phase_move_simps)
next
  case StartClick
  with ch have "has_start_button (gameState w)"
    by (cases "has_start_button (gameState w)") (simp_all add: step_def start_click_def)
  then have "gameState w = START"
    by (cases "gameState w") (simp_all add: has_start_button_def screen_of_def)
  with StartClick show ?thesis
    by (simp add: step_def start_click_def has_start_button_def screen_of_def phase_move_simps)
next
  case PlayAgainClick
  with ch have "has_play_again_button (gameState w)"
    by (cases "has_play_again_button (gameState w)") (simp_all add: step_def play_again_click_def)
  then have "gameState w = GAME_OVER"
    by (cases "gameState w") (simp_all add: has_play_again_button_def screen_of_def)
  with PlayAgainClick show ?thesis
    by (simp add: step_def play_again_click_def resetGame_def has_play_again_button_def
        screen_of_def phase_move_simps)
qed (use ch in \<open>simp_all add: step_def split: if_splits\<close>)

section \<open>The layout of the board\<close>

lemma apply_effects_engine [simp]: "engine (apply_effects effs w) = engine w"
proof (induction effs arbitrary: w)
  case (Cons e effs)
  then show ?case by (cases e) (simp_all add: apply_effects_def)
qed (simp add: apply_effects_def)

lemma handle_layout:
  "map card_id (wcards (handle w ev)) = map card_id (wcards w) \<and>
   map emoji (wcards (handle w ev)) = map emoji (wcards w)"
proof (cases ev)
  case (CardClick i)
  then show ?thesis
    by (simp add: click_card_def handleCardClick_def Let_def split: prod.splits)
next
  case (TimeoutFires k)
  then show ?thesis
    by (cases "k < length (pending w)"; cases "pending w ! k")
       (simp_all add: fire_def handleMatch_def handleMismatch_def Let_def)
qed (simp_all add: start_click_def play_again_click_def Let_def split: prod.splits)

lemma step_layout:
  assumes inv: "world_inv w" and nst: "gameState w \<noteq> START" and nst': "gameState (step w ev) \<noteq> START"
  shows "map card_id (wcards (step w ev)) = map card_id (wcards w) \<and>
         map emoji (wcards (step w ev)) = map emoji (wcards w)"
proof -
  note h = handle_layout [of w ev]
  have "wcards w \<noteq> []" using inv_dealt(2) [OF inv nst] .
  then have "wcards (handle w ev) \<noteq> []"
    using h by (metis Nil_is_map_conv)
  moreover have "gameState (handle w ev) \<noteq> START"
    using nst' by (simp add: step_def)
  ultimately have "engine (step w ev) = engine (handle w ev)"
    by (simp add: step_def settle_engine_dealt)
  with h show ?thesis by simp
qed

end
