(* ===== verification/Spec2Isabelle.thy ===== *)
theory Spec2Isabelle
  imports Deferred Phases
begin

text \<open>
  \<^bold>\<open>Memory Match: a verification development.\<close>

  The program (src/) is a React memory game. \<^verbatim>\<open>App\<close> (src/App.tsx) owns the phase
  (\<^verbatim>\<open>GameState\<close>: START, PLAYING, GAME_OVER) and the statistics (moves, seconds,
  best moves, the last persisted in \<^verbatim>\<open>localStorage\<close>); \<^verbatim>\<open>GameEngine\<close>
  (src/components/GameEngine.tsx) owns the board, deals it when play starts, takes card
  clicks and resolves each pair in a \<^verbatim>\<open>setTimeout\<close> callback, calling back into App
  (\<^verbatim>\<open>updateStats\<close>, \<^verbatim>\<open>setGameState\<close>); \<^verbatim>\<open>GameUI\<close>
  (src/components/GameUI.tsx) draws the screens and holds the two buttons that change
  the phase; src/types.ts and src/constants.ts give the data and the constants.

  \<^bold>\<open>Theories.\<close>
  \<^item> \<open>Prelude\<close>: the rule collections and generic facts on lists, counts and
    element-wise updates; \<open>paired\<close> (every element occurs exactly twice), its length
    and partner lemmas.
  \<^item> \<open>JsRuntime\<close>: the JavaScript built-ins the code calls: numbers with \<open>NaN\<close>
    (\<open>jsnum\<close>, \<open>js_less\<close>, \<open>js_toString\<close>), \<^verbatim>\<open>toString\<close> (\<open>string_of_nat\<close>,
    \<open>string_of_int\<close>), \<^verbatim>\<open>parseInt(_, 10)\<close> (\<open>parseInt10\<close>), \<^verbatim>\<open>%\<close> (\<open>js_rem\<close>),
    \<^verbatim>\<open>padStart\<close>, and \<^verbatim>\<open>sort(() => 0.5 - Math.random())\<close> (\<open>random_sort\<close>).
    Printing then parsing an integer gives it back; the random sort returns a
    permutation, and every permutation for some outcomes (\<open>random_sort_outcomes\<close>).
  \<^item> \<open>GameTypes\<close>: types.ts and constants.ts (\<open>GameState\<close>, \<open>card\<close>,
    \<open>GameStats\<close>, \<open>EMOJI_POOL\<close> as Unicode code points, \<open>PAIRS_COUNT\<close> = 8).
  \<^item> \<open>Board\<close>: GameEngine's state (record \<open>engine\<close>) and one definition per
    function: \<open>initializeBoard\<close>, the board effect \<open>engine_effect\<close>,
    \<open>handleCardClick\<close>, \<open>checkForMatch\<close>, the two callbacks \<open>handleMatch\<close>,
    \<open>handleMismatch\<close>, and the rendered grid \<open>render_grid\<close> (one \<open>card_view\<close>
    per card). A handler returns the new engine state and the list of effects
    it issues (\<open>effect\<close>: \<open>IncMoves\<close> for the \<^verbatim>\<open>updateStats\<close> updater,
    \<open>SetGameState\<close>, \<open>SetTimeout\<close>): this datatype is the interface between the
    engine and the application. The deal lemmas (\<open>initializeBoard_shape\<close>,
    \<open>deal_sound\<close>, \<open>deal_onto\<close>) and the engine invariants \<open>selection_inv\<close>,
    \<open>pairs_inv\<close> with their preservation lemmas.
  \<^item> \<open>Session\<close>: App's hooks: \<open>load_best\<close> and \<open>initial_stats\<close> (the initial
    state read from the store), \<open>timer_effect\<close> and \<open>tick\<close> (the interval and its
    callback), \<open>inc_moves\<close>, \<open>game_over_effect\<close> (best-score update and write),
    \<open>resetGame\<close>.
  \<^item> \<open>GameUI\<close>: \<open>screen_of\<close>, which button each phase shows, \<open>formatTime\<close>,
    \<open>shows_best\<close>, and \<open>render_overlay\<close>, what each screen displays (datatype
    \<open>overlay\<close>); the clock lemmas \<open>formatTime_nonneg\<close> and \<open>formatTime_inj\<close>.
  \<^item> \<open>System\<close>: the whole application as a state machine. \<open>world\<close> holds App's and
    GameEngine's state, the queue of pending timeouts, the stored value, the random
    stream and whether an interval is registered. An \<open>event\<close> is a click (start button, a card, play again), a timeout
    firing or an interval tick; \<open>step\<close> runs its handler and then the effect pass
    \<open>settle\<close> (GameEngine's board effect, then App's timer and game-over effects, as
    React runs child effects before the parent's). \<open>reachable\<close> is the inductive
    set of states reached from the first render \<open>init_world\<close>.
  \<^item> \<open>Invariant\<close>: \<open>world_inv\<close>, its proof for every reachable state, the
    single-step lemmas for each event, and the frame lemmas saying which event writes
    the best score and the store.
  \<^item> \<open>Liveness\<close>: the strategy of a player with perfect memory (\<open>next_move\<close>)
    and the auto-player \<open>solve\<close> that plays it with a fuel of events; every move
    lowers \<open>potential\<close> by one, so the fuel \<open>3 * PAIRS_COUNT + 3\<close> finishes every
    game in play (\<open>solve_finishes\<close>).
  \<^item> \<open>Deferred\<close>: the order React 18 really runs the code in. A click renders
    synchronously and its effects run before the next event; the render caused by a
    \<^verbatim>\<open>setTimeout\<close> or \<^verbatim>\<open>setInterval\<close> callback leaves its passive effects due, to be
    run in a later task (\<open>astep\<close> over a \<open>sched\<close>, the world and whether effects are
    due; \<open>FlushEffects\<close> runs them). The handlers and the effect pass do not read
    the clock (\<open>handle_set_timer\<close>, \<open>settle_set_timer\<close>), and a callback leaves the
    effects nothing to do except on the move that ends the game
    (\<open>callback_settled\<close>); from these the simulation \<open>sim_arun\<close>, from any
    simulated pair of states \<open>sim_arun_from\<close>. The same
    theory bounds the counters by the number of events.
  \<^item> \<open>Phases\<close>: the specification's phase machine as an inductive relation
    \<open>phase_move\<close> over phases and events, and \<open>step_phase\<close>: every phase change of a
    step is one of its moves.
  \<^item> This theory: the properties of the program, each stated over the definitions
    above and proved from the component lemmas: the invariants of reachable states
    (C1, C5, C9, C10, C19, C24, C31), the handlers on each branch (C3, C11, C12, C13,
    C23, C25), the layout of the board during a game (C18), the counters and the store along runs (C4, C6, C7, C8, C35, C36), the effect pass
    (C15), progress and its ranking function (C16, C26), the deal against the
    specification of a deal (C2, C17), the resolution of a pair by its callback
    (C28), the best score never getting worse and equal to the specification's minimum
    (C29, C38, C39), and what the screens and the grid show (C20, C21, C22, C27); the
    deferred schedule: the invariant and progress under it (C32, C40), its simulation by
    the atomic one (C33), the interval and the clock under it (C14, C30, C34); the phase
    machine (C37).

  \<^bold>\<open>Modelling choices.\<close> React runs one discrete event at a time and batches the
  updates issued inside one handler or callback (React 18); in the system theory a step
  is atomic, and the theory \<open>Deferred\<close> shows what that assumption hides: nothing
  but the clock of a finished game (C33), and every invariant still holds (C32). The
  effect pass runs each effect body once; \<open>settle\<close> reaches a fixed point in one pass,
  so the effects React re-runs after their own updates change nothing more (C15). The
  interval is a flag of the state that the timer effect sets when the phase is PLAYING
  and clears otherwise; a tick with no interval registered does nothing. The properties
  of the interval and the clock are stated over the deferred schedule (C14, C30), where
  the flag can outlive the game until the effects run.
  \<^verbatim>\<open>Math.random\<close> is a stream of outcomes (a \<open>bool list\<close>, \<open>False\<close> once exhausted)
  that the sort consumes one comparison at a time. The sort is modelled as an insertion
  sort: engines use other algorithms (V8's TimSort), with the same set of possible
  results but other probabilities, so only the set of deals is claimed (C17), never their
  distribution. Delays are not timed: a pending callback
  fires when a \<open>TimeoutFires\<close> event picks it; as at most one is ever pending (C5),
  their order cannot matter. Every definition of the program is total and the run of a
  list of events is a fold, so no fuel is needed there. The one fuel is that of the
  auto-player \<open>solve\<close>: \<open>3 * PAIRS_COUNT + 3\<close> events are enough because each move
  lowers the potential (three per unmatched pair plus at most three for the pair in
  hand) by one (C26).

  \<^bold>\<open>Findings.\<close> The shuffle cannot be uniform, against the spec's uniform
  permutation: whatever the engine's sort, each result is decided by finitely many
  calls of \<^verbatim>\<open>Math.random\<close>, whose values are dyadic, so every deal has a dyadic
  probability, never 1/6 on three elements (an argument about the engine, not proved
  here). An unparsable stored best disables the best score for good (C25), where
  the spec asks to treat it as unset. Reset during play and start from the game-over
  screen, which the spec allows, are not offered (C23). A game takes at least 8 moves, so
  a stored best of 8 or less is never improved, and the spec's scenario C cannot occur
  (C39). The 9999 sentinel hides bests
  of 9999 or more (C22). The settle callbacks are never cancelled, and are harmless only
  because the phase cannot leave play while one is pending (C24). The interval is
  cleared by an effect cleanup and its callback has no phase check: in the atomic
  semantics a finished game's clock stands still, but every callback that ends a game
  opens a window, until React runs the effects of its render, in which a tick adds a
  second to the finished game (C14, C30, C34), against the spec's clock that stops
  with the game.

  \<^bold>\<open>Not modelled.\<close> Rendering beyond what the overlay and the grid display (JSX
  layout, the CSS classes that encode no state, animation), the lucide icons and the
  colour constants \<^verbatim>\<open>CARD_BACK_COLOR\<close>, \<^verbatim>\<open>CARD_FRONT_COLOR\<close> (constants.ts, used
  by no component): they compute no state. React's own render scheduling beyond the
  order of effects: a click is taken to see the state of the last render, so clicks
  landing while a callback's render is still in progress are not separate events. The \<^verbatim>\<open>pointer-events-none\<close> class of a
  matched card keeps its clicks from reaching \<^verbatim>\<open>handleCardClick\<close>, whose guard
  rejects them anyway; the model delivers them and lets the guard reject them.
  JavaScript numbers beyond integers: each event adds at most one to the moves and the
  seconds (C35), so they stay exact integers, far below \<open>2^53\<close>. For the same reason
  \<open>string_of_int\<close> prints plain digits where JavaScript would switch to exponent form
  (from \<open>10^21\<close>), and \<open>parseInt10\<close> returns the exact integer where JavaScript rounds
  a stored value above \<open>2^53\<close> to a double; only an edited store can hold one.
  Non-ASCII white space in \<^verbatim>\<open>parseInt\<close>.
\<close>

section \<open>Test scenarios\<close>

text \<open>
  With the random stream empty every comparison answers \<open>False\<close>, so the deal keeps the
  pool's order: cards \<open>i\<close> and \<open>i + 8\<close> carry the same emoji. \<open>perfect_game\<close> starts a
  game and clears the board in eight moves.
\<close>

definition perfect_game :: "event list" where
  "perfect_game =
     StartClick # concat (map (\<lambda>i. [CardClick i, CardClick (i + 8), TimeoutFires 0]) [0..<8])"

text \<open>\<open>one_miss_game\<close> starts a game, first misses (cards 0 and 1 differ), then clears the board: nine moves.\<close>

definition one_miss_game :: "event list" where
  "one_miss_game =
     StartClick # CardClick 0 # CardClick 1 # TimeoutFires 0 #
     concat (map (\<lambda>i. [CardClick i, CardClick (i + 8), TimeoutFires 0]) [0..<8])"

section \<open>Properties of every reachable state\<close>

text \<open>
  C1. The game is over exactly when the board has been dealt and every card on it is
  matched: \<^verbatim>\<open>setGameState(GAME_OVER)\<close> is issued by the match callback that matches
  the last pair, and by nothing else.
\<close>

theorem reachable_completion:
  assumes "reachable w"
  shows "gameState w = GAME_OVER \<longleftrightarrow>
           cards (engine w) \<noteq> [] \<and> list_all isMatched (cards (engine w))"
  using reachable_world_inv [OF assms] by (simp add: world_inv_def core_inv_def completion_ok_def)

theorem reachable_completion_witness:
  "cards (engine (run (init_world None []) perfect_game)) \<noteq> [] \<and>
   list_all isMatched (cards (engine (run (init_world None []) perfect_game)))"
proof -
  have "gameState (run (init_world None []) perfect_game) = GAME_OVER"
    by code_simp
  with reachable_completion [OF reachable_init_run] show ?thesis
    by blast
qed

text \<open>
  C3. While a pair is being resolved (\<^verbatim>\<open>isProcessing\<close>), a click on any card changes
  nothing: a third card cannot be selected before the pending pair settles.
\<close>

theorem locked_click_ignored:
  assumes "reachable w" "isProcessing (engine w)"
  shows "step w (CardClick i) = w"
proof -
  from assms(2) have "\<not> click_accepted w i"
    by (simp add: click_accepted_def)
  with reachable_world_inv [OF assms(1)] show ?thesis
    by (rule step_click_rejected)
qed

theorem locked_click_ignored_witness:
  "isProcessing (engine (run (init_world None []) [StartClick, CardClick 0, CardClick 1])) \<and>
   step (run (init_world None []) [StartClick, CardClick 0, CardClick 1]) (CardClick 2) =
     run (init_world None []) [StartClick, CardClick 0, CardClick 1]"
proof -
  have p: "isProcessing (engine (run (init_world None []) [StartClick, CardClick 0, CardClick 1]))"
    by code_simp
  with locked_click_ignored [OF reachable_init_run p] show ?thesis
    by blast
qed

text \<open>
  C5. At most one settle callback is pending at any time, and one is pending exactly
  while the board is locked: the lock serialises the resolutions.
\<close>

theorem one_pending_callback:
  assumes "reachable w"
  shows "length (pending w) \<le> 1 \<and> (pending w \<noteq> [] \<longleftrightarrow> isProcessing (engine w))"
  using reachable_world_inv [OF assms] by (simp add: world_inv_def core_inv_def lock_ok_def)

theorem one_pending_callback_witness:
  "length (pending (run (init_world None []) [StartClick, CardClick 0, CardClick 1])) = 1"
proof -
  have p: "isProcessing (engine (run (init_world None []) [StartClick, CardClick 0, CardClick 1]))"
    by code_simp
  with one_pending_callback [OF reachable_init_run, of None "[]" "[StartClick, CardClick 0, CardClick 1]"]
  show ?thesis
    by (cases "pending (run (init_world None []) [StartClick, CardClick 0, CardClick 1])") auto
qed

text \<open>
  C8. A finished game took at least \<open>PAIRS_COUNT\<close> moves: each move matches at most
  one pair.
\<close>

theorem finished_game_moves_bound:
  assumes "reachable w" "gameState w = GAME_OVER"
  shows "int PAIRS_COUNT \<le> moves (stats w)"
  using inv_game_over_moves [OF reachable_world_inv [OF assms(1)] assms(2)] .

theorem finished_game_moves_bound_witness:
  "gameState (run (init_world None []) perfect_game) = GAME_OVER \<and>
   8 \<le> moves (stats (run (init_world None []) perfect_game))"
proof -
  have g: "gameState (run (init_world None []) perfect_game) = GAME_OVER"
    by code_simp
  with finished_game_moves_bound [OF reachable_init_run g] show ?thesis
    by simp
qed

text \<open>
  C9. Cards are matched in whole pairs: if a card is matched, every card with the same
  emoji is matched too, and matched cards stay face up.
\<close>

theorem matched_pairs_together:
  assumes "reachable w" "c \<in> set (cards (engine w))" "c' \<in> set (cards (engine w))"
    and "isMatched c" "emoji c' = emoji c"
  shows "isMatched c' \<and> isFlipped c'"
proof -
  from reachable_world_inv [OF assms(1)]
  have pinv: "pairs_inv (cards (engine w))"
    and sinv: "selection_inv (cards (engine w)) (flippedIds (engine w))"
    by (simp_all add: world_inv_def core_inv_def pairs_matched_def selection_ok_def)
  from pinv assms(2-5) have m: "isMatched c'"
    unfolding pairs_inv_def by blast
  moreover from sinv assms(3) m have "isFlipped c'"
    unfolding selection_inv_def by blast
  ultimately show ?thesis ..
qed

theorem matched_pairs_together_witness:
  "isMatched (cards (engine (run (init_world None []) [StartClick, CardClick 0, CardClick 8, TimeoutFires 0])) ! 8)"
proof -
  let ?w = "run (init_world None []) [StartClick, CardClick 0, CardClick 8, TimeoutFires 0]"
  have l: "16 = length (cards (engine ?w))" by code_simp
  have m: "isMatched (cards (engine ?w) ! 0)" by code_simp
  have e: "emoji (cards (engine ?w) ! 8) = emoji (cards (engine ?w) ! 0)" by code_simp
  have "cards (engine ?w) ! 0 \<in> set (cards (engine ?w))" "cards (engine ?w) ! 8 \<in> set (cards (engine ?w))"
    using l by (metis nth_mem zero_less_numeral, metis nth_mem less_numeral_simps(4) numeral_less_iff
        semiring_norm(76,78,81))
  from matched_pairs_together [OF reachable_init_run this m e] show ?thesis
    by blast
qed

text \<open>
  C10. The selection is exactly the set of face-up, unmatched cards; it has at most two
  ids and no repeated one.
\<close>

theorem selection_is_face_up_unmatched:
  assumes "reachable w"
  shows "set (flippedIds (engine w)) =
           card_id ` {c \<in> set (cards (engine w)). isFlipped c \<and> \<not> isMatched c} \<and>
         length (flippedIds (engine w)) \<le> 2 \<and> distinct (flippedIds (engine w))"
proof -
  from reachable_world_inv [OF assms]
  have sel: "selection_inv (cards (engine w)) (flippedIds (engine w))"
    by (simp add: world_inv_defs)
  then have "set (flippedIds (engine w)) =
           card_id ` {c \<in> set (cards (engine w)). isFlipped c \<and> \<not> isMatched c}"
    unfolding selection_inv_def by blast
  with sel show ?thesis
    by (simp add: selection_inv_def)
qed

theorem selection_is_face_up_unmatched_witness:
  "length (flippedIds (engine (run (init_world None []) [StartClick, CardClick 3]))) \<le> 2 \<and>
   flippedIds (engine (run (init_world None []) [StartClick, CardClick 3])) = [''card-3'']"
proof -
  have "flippedIds (engine (run (init_world None []) [StartClick, CardClick 3])) = [''card-3'']"
    by code_simp
  with selection_is_face_up_unmatched [OF reachable_init_run, of None "[]" "[StartClick, CardClick 3]"]
  show ?thesis
    by simp
qed

text \<open>
  C11. A click that the handler's guard rejects changes nothing: outside play, or on a
  card that is matched or already face up (selecting the same card twice is a no-op).
\<close>

theorem rejected_click_ignored:
  assumes "reachable w"
    and "gameState w \<noteq> PLAYING \<or> isMatched (cards (engine w) ! i) \<or> isFlipped (cards (engine w) ! i)"
  shows "step w (CardClick i) = w"
proof -
  from assms(2) have "\<not> click_accepted w i"
    by (auto simp: click_accepted_def)
  with reachable_world_inv [OF assms(1)] show ?thesis
    by (rule step_click_rejected)
qed

theorem rejected_click_ignored_witness:
  "step (run (init_world None []) [StartClick, CardClick 0]) (CardClick 0) =
     run (init_world None []) [StartClick, CardClick 0]"
proof -
  have "isFlipped (cards (engine (run (init_world None []) [StartClick, CardClick 0])) ! 0)"
    by code_simp
  then show ?thesis
    using rejected_click_ignored [OF reachable_init_run] by blast
qed

text \<open>
  C15. In every reachable state the effect pass is at a fixed point: React re-running
  the board effect and the game-over effect after their own updates changes nothing,
  so modelling one pass per event is exact.
\<close>

theorem effect_pass_fixed_point:
  assumes "reachable w"
  shows "settle w = w"
  using settle_world_inv_id [OF reachable_world_inv [OF assms]] .

theorem effect_pass_fixed_point_witness:
  "settle (run (init_world None []) perfect_game) = run (init_world None []) perfect_game"
  by (rule effect_pass_fixed_point [OF reachable_init_run])

section \<open>Moves, best score and persistence\<close>

text \<open>
  C4. Along any run without a reset, the move counter grows by exactly the number of
  completed two-card attempts (accepted clicks on the second card of a pair), matches
  and mismatches alike.
\<close>

theorem moves_count_run:
  assumes "reachable w" "PlayAgainClick \<notin> set evs"
  shows "moves (stats (run w evs)) = moves (stats w) + int (pair_attempts w evs)"
  using assms
proof (induction evs arbitrary: w)
  case Nil
  then show ?case by (simp add: run_def)
next
  case (Cons ev evs)
  have r: "reachable (step w ev)" using Cons.prems(1) by (rule reachable.step)
  have ne: "ev \<noteq> PlayAgainClick"
    using Cons.prems(2) by auto
  have "moves (stats (step w ev)) = moves (stats w) + (if completes_pair w ev then 1 else 0)"
    by (rule step_moves [OF reachable_world_inv [OF Cons.prems(1)] ne])
  with Cons.IH [OF r] Cons.prems(2) show ?case
    by (simp add: run_Cons)
qed

theorem moves_count_run_witness:
  "moves (stats (run (init_world None []) perfect_game)) =
     int (pair_attempts (init_world None []) perfect_game)"
proof -
  have "PlayAgainClick \<notin> set perfect_game"
    by code_simp
  from moves_count_run [OF reachable.init this] show ?thesis
    by (simp add: init_world_eq initial_stats_def)
qed

text \<open>
  C6. The best score after any run is the best of the stored value and the move counts
  of the games finished along the run: it is written once per finished game, only when
  strictly lower, and never otherwise.
\<close>

theorem best_is_minimum_run:
  assumes "reachable w"
  shows "bestMoves (stats (run w evs)) = best_of (bestMoves (stats w)) (finish_moves w evs)"
  using run_best [OF assms] .

theorem best_is_minimum_run_witness:
  "bestMoves (stats (run (init_world (Some ''12'') []) (perfect_game @ PlayAgainClick # one_miss_game))) = Num 8"
proof -
  have "finish_moves (init_world (Some ''12'') []) (perfect_game @ PlayAgainClick # one_miss_game) = [8, 9]"
    by code_simp
  moreover have "bestMoves (stats (init_world (Some ''12'') [])) = Num 12"
    by code_simp
  ultimately show ?thesis
    using best_is_minimum_run [OF reachable.init, of "Some ''12''" "[]" "perfect_game @ PlayAgainClick # one_miss_game"]
    by (simp add: best_of_def)
qed

text \<open>
  C7. The best score survives a reload: a new session started from what the store
  holds reads back exactly the current best (the write is \<^verbatim>\<open>moves.toString()\<close> and
  the read \<^verbatim>\<open>parseInt\<close>, and printing then parsing gives the number back).
\<close>

theorem best_survives_reload:
  assumes "reachable w"
  shows "bestMoves (stats (init_world (storage w) r)) = bestMoves (stats w)"
proof -
  from reachable_world_inv [OF assms] have "bestMoves (stats w) = load_best (storage w)"
    by (simp add: world_inv_def score_ok_def)
  then show ?thesis
    by (simp add: init_world_eq initial_stats_def)
qed

theorem best_survives_reload_witness:
  "storage (run (init_world None []) perfect_game) = Some ''8'' \<and>
   bestMoves (stats (init_world (Some ''8'') [])) = Num 8"
proof -
  have s: "storage (run (init_world None []) perfect_game) = Some ''8''"
    by code_simp
  have "bestMoves (stats (run (init_world None []) perfect_game)) = Num 8"
    by code_simp
  with s best_survives_reload [OF reachable_init_run, of None "[]" perfect_game "[]"] show ?thesis
    by simp
qed

section \<open>The buttons and the clock\<close>

text \<open>
  C12. \<^verbatim>\<open>Start Game\<close> on the start screen starts play with zero moves and seconds, no
  pending callback, an empty selection and a freshly dealt board of face-down cards
  \<^verbatim>\<open>card-0\<close> .. \<^verbatim>\<open>card-15\<close>; the best score is untouched.
\<close>

theorem start_deals_fresh_board:
  assumes "reachable w" "gameState w = START"
  defines "w' \<equiv> step w StartClick"
  shows "gameState w' = PLAYING \<and> moves (stats w') = 0 \<and> timer (stats w') = 0 \<and>
         bestMoves (stats w') = bestMoves (stats w) \<and> pending w' = [] \<and>
         flippedIds (engine w') = [] \<and> \<not> isProcessing (engine w') \<and>
         map card_id (cards (engine w')) = board_ids \<and>
         (\<forall>c\<in>set (cards (engine w')). \<not> isFlipped c \<and> \<not> isMatched c)"
proof -
  have inv: "world_inv w" by (rule reachable_world_inv [OF assms(1)])
  then have "start_clean w" by (simp add: world_inv_def core_inv_def)
  with assms(2) have clean: "pending w = []" "moves (stats w) = 0" "timer (stats w) = 0"
    by (simp_all add: start_clean_def)
  note deal = initializeBoard_shape [of "rng w"]
  show ?thesis
    using clean deal by (simp add: w'_def step_start_eq [OF inv assms(2)])
qed

theorem start_deals_fresh_board_witness:
  "gameState (step (init_world None []) StartClick) = PLAYING \<and>
   pending (step (init_world None []) StartClick) = []"
proof -
  have "gameState (init_world None []) = START"
    by (simp add: init_world_eq)
  from start_deals_fresh_board [OF reachable.init this] show ?thesis
    by blast
qed

text \<open>
  C13. \<^verbatim>\<open>Play Again\<close> on the game-over screen returns to the start screen with zero
  moves and seconds and no board; the best score and the store are untouched.
\<close>

theorem play_again_resets:
  assumes "reachable w" "gameState w = GAME_OVER"
  defines "w' \<equiv> step w PlayAgainClick"
  shows "gameState w' = START \<and> moves (stats w') = 0 \<and> timer (stats w') = 0 \<and>
         bestMoves (stats w') = bestMoves (stats w) \<and> storage w' = storage w \<and>
         cards (engine w') = [] \<and> pending w' = []"
proof -
  have inv: "world_inv w" by (rule reachable_world_inv [OF assms(1)])
  from inv_game_over [OF inv assms(2)] show ?thesis
    by (simp add: w'_def step_play_again_eq [OF inv assms(2)])
qed

theorem play_again_resets_witness:
  "gameState (step (run (init_world None []) perfect_game) PlayAgainClick) = START \<and>
   bestMoves (stats (step (run (init_world None []) perfect_game) PlayAgainClick)) = Num 8"
proof -
  have g: "gameState (run (init_world None []) perfect_game) = GAME_OVER"
    by code_simp
  have "bestMoves (stats (run (init_world None []) perfect_game)) = Num 8"
    by code_simp
  with play_again_resets [OF reachable_init_run g] show ?thesis
    by simp
qed

text \<open>
  C14. Under the order in which React 18 runs the code, an interval tick changes nothing
  but the clock and adds exactly one second when it changes it; it changes it only in
  play, or on the game-over screen while the effects of the render that ended the game
  have not run yet. On the start screen, and on a game-over screen whose effects have
  run, a tick does nothing.
\<close>

theorem tick_changes_only_clock:
  "let s = arun (init_world stored r, False) aevs in
     fst (astep s (Ev TimerTick)) = fst s \<or>
     fst (astep s (Ev TimerTick)) = set_timer (timer (stats (fst s)) + 1) (fst s) \<and>
     (gameState (fst s) = PLAYING \<or> snd s \<and> gameState (fst s) = GAME_OVER)"
  using astep_tick [of "arun (init_world stored r, False) aevs"]
    sim_interval(2) [OF sim_arun [of stored r aevs]]
  by (auto simp: Let_def)

section \<open>The dealt board\<close>

text \<open>
  C2. For any outcome of the random generator, \<open>initializeBoard\<close> deals 16 cards with
  distinct ids, all face down and unmatched; their emojis are 8 distinct emojis of the
  pool, each on exactly two cards.
\<close>

theorem deal_board_pairs:
  fixes r :: "bool list"
  defines "cs \<equiv> cards (fst (initializeBoard r))"
  shows "length cs = 2 * PAIRS_COUNT \<and> distinct (map card_id cs) \<and>
         set (map emoji cs) \<subseteq> set EMOJI_POOL \<and> card (set (map emoji cs)) = PAIRS_COUNT \<and>
         (\<forall>e\<in>set (map emoji cs). count_list (map emoji cs) e = 2) \<and>
         (\<forall>c\<in>set cs. \<not> isFlipped c \<and> \<not> isMatched c)"
proof -
  note s = initializeBoard_shape [of r, folded cs_def]
  have "length cs = 2 * PAIRS_COUNT"
    using s(1) by (metis length_board_ids length_map PAIRS_COUNT_val numeral_Bit0 mult_2)
  moreover have "distinct (map card_id cs)"
    using s(1) by simp
  ultimately show ?thesis
    using s(2-5) by (simp add: paired_def)
qed

theorem deal_board_pairs_witness:
  "length (cards (fst (initializeBoard []))) = 16 \<and>
   count_list (map emoji (cards (fst (initializeBoard [])))) 0x1F436 = 2"
proof -
  have "count_list (map emoji (cards (fst (initializeBoard [])))) 0x1F436 = 2"
    by code_simp
  with deal_board_pairs [of "[]"] show ?thesis
    by simp
qed

section \<open>Progress\<close>

text \<open>
  C16. The game can always be finished, and quickly: from every reachable state in play,
  some sequence of at most \<open>3 * PAIRS_COUNT + 3\<close> clicks and callback firings leads to
  the game-over screen. No state of a game in progress is a dead end (the lock is always
  released by its callback, and an unmatched card always has an unmatched partner that
  can be selected).
\<close>

theorem game_can_be_finished:
  assumes "reachable w" "gameState w = PLAYING"
  shows "\<exists>evs. length evs \<le> 3 * PAIRS_COUNT + 3 \<and> gameState (run w evs) = GAME_OVER"
proof -
  obtain evs where "gameState (run w evs) = GAME_OVER" "length evs \<le> 3 * PAIRS_COUNT + 3"
    by (rule solve_finishes [OF reachable_world_inv [OF assms(1)] assms(2)])
  then show ?thesis
    by blast
qed

theorem game_can_be_finished_witness:
  "\<exists>evs. length evs \<le> 27 \<and>
     gameState (run (run (init_world None []) [StartClick, CardClick 0, CardClick 1]) evs) = GAME_OVER"
proof -
  have "gameState (run (init_world None []) [StartClick, CardClick 0, CardClick 1]) = PLAYING"
    by code_simp
  from game_can_be_finished [OF reachable_init_run this] show ?thesis
    by simp
qed

text \<open>
  C26. The strategy \<open>next_move\<close> of a player with perfect memory has a ranking
  function: from a reachable state in play, each of its moves either ends the game or
  lowers \<open>potential\<close> by exactly one, and the potential never exceeds
  \<open>3 * PAIRS_COUNT + 3\<close>. So the auto-player \<open>solve\<close> terminates with that fuel.
\<close>

theorem strategy_potential_decreases:
  assumes "reachable w" "gameState w = PLAYING"
  shows "potential w \<le> 3 * PAIRS_COUNT + 3 \<and>
         (gameState (step w (next_move w)) = GAME_OVER \<or>
          (gameState (step w (next_move w)) = PLAYING \<and>
           Suc (potential (step w (next_move w))) = potential w))"
proof -
  have inv: "world_inv w" by (rule reachable_world_inv [OF assms(1)])
  from potential_bound [OF inv assms(2)] potential_step [OF inv assms(2)] show ?thesis
    by blast
qed

theorem strategy_potential_decreases_witness:
  "potential (run (init_world None []) [StartClick]) \<le> 27 \<and>
   Suc (potential (step (run (init_world None []) [StartClick])
                        (next_move (run (init_world None []) [StartClick])))) =
     potential (run (init_world None []) [StartClick])"
proof -
  let ?w = "run (init_world None []) [StartClick]"
  have g: "gameState ?w = PLAYING" and g': "gameState (step ?w (next_move ?w)) = PLAYING"
    by code_simp+
  from strategy_potential_decreases [OF reachable_init_run g] g' show ?thesis
    by simp
qed

section \<open>The shuffle\<close>

text \<open>
  C17. The deal implements the specification of a deal (spec, section 4.2, steps 1 to 3)
  as a nondeterministic choice: over all outcomes of \<^verbatim>\<open>Math.random\<close>, the emoji
  sequences dealt are exactly the arrangements of \<open>PAIRS_COUNT\<close> distinct pool emojis,
  each twice. Every deal has that shape, and every such arrangement is dealt.
\<close>

theorem deal_refines_spec:
  "{map emoji (cards (fst (initializeBoard r))) | r. True} =
   {gs. \<exists>es. distinct es \<and> length es = PAIRS_COUNT \<and> set es \<subseteq> set EMOJI_POOL \<and>
             mset gs = mset (es @ es)}"
proof (intro set_eqI iffI)
  fix gs
  assume "gs \<in> {map emoji (cards (fst (initializeBoard r))) | r. True}"
  then obtain r where gs: "gs = map emoji (cards (fst (initializeBoard r)))"
    by blast
  obtain es where "distinct es" "length es = PAIRS_COUNT" "set es \<subseteq> set EMOJI_POOL"
    "mset (map emoji (cards (fst (initializeBoard r)))) = mset (es @ es)"
    by (rule deal_sound)
  with gs show "gs \<in> {gs. \<exists>es. distinct es \<and> length es = PAIRS_COUNT \<and>
                        set es \<subseteq> set EMOJI_POOL \<and> mset gs = mset (es @ es)}"
    by blast
next
  fix gs
  assume "gs \<in> {gs. \<exists>es. distinct es \<and> length es = PAIRS_COUNT \<and>
                      set es \<subseteq> set EMOJI_POOL \<and> mset gs = mset (es @ es)}"
  then obtain es where "distinct es" "length es = PAIRS_COUNT" "set es \<subseteq> set EMOJI_POOL"
    "mset gs = mset (es @ es)"
    by blast
  from deal_onto [OF this] show "gs \<in> {map emoji (cards (fst (initializeBoard r))) | r. True}"
    by (metis (mono_tags, lifting) mem_Collect_eq)
qed

text \<open>
  C18. Once dealt, the layout of the board is fixed until the game is left: an event
  that does not return to the start screen keeps the id and the emoji at every position;
  only faces and matches change. A new deal happens only from the start screen.
\<close>

theorem layout_fixed_during_game:
  assumes "reachable w" "gameState w \<noteq> START" "gameState (step w ev) \<noteq> START"
  shows "map card_id (cards (engine (step w ev))) = map card_id (cards (engine w)) \<and>
         map emoji (cards (engine (step w ev))) = map emoji (cards (engine w))"
  using step_layout [OF reachable_world_inv [OF assms(1)] assms(2,3)] .

theorem layout_fixed_during_game_witness:
  "map emoji (cards (engine (step (run (init_world None []) [StartClick, CardClick 0]) (CardClick 8)))) =
   map emoji (cards (engine (run (init_world None []) [StartClick, CardClick 0])))"
proof -
  let ?w = "run (init_world None []) [StartClick, CardClick 0]"
  have "gameState ?w = PLAYING" "gameState (step ?w (CardClick 8)) = PLAYING"
    by code_simp+
  with layout_fixed_during_game [OF reachable_init_run, of None "[]" "[StartClick, CardClick 0]" "CardClick 8"]
  show ?thesis
    by simp
qed

section \<open>The state as the screens show it\<close>

text \<open>
  C19. Every board on screen is well formed: the ids are \<^verbatim>\<open>card-0\<close> .. \<^verbatim>\<open>card-15\<close>
  in board order, every emoji is one of the pool, there are \<open>PAIRS_COUNT\<close> distinct
  emojis and each is on exactly two cards, whatever cards have been turned or matched.
\<close>

theorem board_well_formed:
  assumes "reachable w" "gameState w \<noteq> START"
  shows "map card_id (cards (engine w)) = board_ids \<and>
         set (map emoji (cards (engine w))) \<subseteq> set EMOJI_POOL \<and>
         card (set (map emoji (cards (engine w)))) = PAIRS_COUNT \<and>
         (\<forall>e\<in>set (map emoji (cards (engine w))). count_list (map emoji (cards (engine w))) e = 2)"
proof -
  from reachable_world_inv [OF assms(1)] assms(2)
  have ids: "map card_id (cards (engine w)) = board_ids"
    and p: "paired (map emoji (cards (engine w)))"
    and sub: "set (map emoji (cards (engine w))) \<subseteq> set EMOJI_POOL"
    by (simp_all add: world_inv_def core_inv_def board_shape_def)
  have "length (map emoji (cards (engine w))) = 16"
    using ids by (metis length_board_ids length_map)
  with paired_length [OF p] have "card (set (map emoji (cards (engine w)))) = PAIRS_COUNT"
    by simp
  with ids p sub show ?thesis
    by (simp add: paired_def)
qed

theorem board_well_formed_witness:
  "map card_id (cards (engine (run (init_world None []) [StartClick, CardClick 0]))) = board_ids \<and>
   card (set (map emoji (cards (engine (run (init_world None []) [StartClick, CardClick 0]))))) = 8"
proof -
  have "gameState (run (init_world None []) [StartClick, CardClick 0]) \<noteq> START"
    by code_simp
  from board_well_formed [OF reachable_init_run this] show ?thesis
    by simp
qed

text \<open>
  C20. While a game is in play the HUD shows the move count and the clock, and the clock
  reads minutes, a colon and exactly two digits of seconds (the seconds counter is never
  negative, so the truncating \<^verbatim>\<open>%\<close> is the remainder below 60).
\<close>

theorem clock_display:
  assumes "reachable w" "gameState w = PLAYING"
  shows "render_overlay (gameState w) (stats w) =
           HUDOverlay (string_of_int (moves (stats w)))
             (string_of_int (timer (stats w) div 60) @ '':'' @
              [digit_chars ! nat (timer (stats w) mod 60 div 10),
               digit_chars ! nat (timer (stats w) mod 60 mod 10)])"
proof -
  from reachable_world_inv [OF assms(1)] have "0 \<le> timer (stats w)"
    by (simp add: world_inv_def core_inv_def moves_ok_def)
  with assms(2) show ?thesis
    by (simp add: render_overlay_def formatTime_nonneg)
qed

theorem clock_display_witness:
  "render_overlay (gameState (run (init_world None []) (StartClick # replicate 75 TimerTick)))
                  (stats (run (init_world None []) (StartClick # replicate 75 TimerTick))) =
     HUDOverlay (string_of_int 0) (string_of_int 1 @ '':'' @ [digit_chars ! 1, digit_chars ! 5])"
proof -
  let ?w = "run (init_world None []) (StartClick # replicate 75 TimerTick)"
  have g: "gameState ?w = PLAYING" and t: "timer (stats ?w) = 75" and m: "moves (stats ?w) = 0"
    by code_simp+
  from clock_display [OF reachable_init_run g] t m show ?thesis
    by simp
qed

text \<open>
  C21. The clock can be read back: two non-negative second counts that are displayed
  alike are equal.
\<close>

theorem clock_injective:
  assumes "0 \<le> s" "0 \<le> s'" "formatTime s = formatTime s'"
  shows "s = s'"
  using formatTime_inj [OF assms] .

theorem clock_injective_witness: "formatTime 75 \<noteq> formatTime 135"
proof
  assume "formatTime 75 = formatTime 135"
  from clock_injective [OF _ _ this] show False
    by simp
qed

text \<open>
  C22. The start screen shows the personal best read from the store, and only when it
  is a number below 9999: the panel reads \<^verbatim>\<open>n Moves\<close>.
\<close>

theorem start_screen_shows_best:
  assumes "reachable w" "gameState w = START"
  shows "render_overlay (gameState w) (stats w) =
           StartOverlay (if js_less (load_best (storage w)) (Num 9999)
                         then Some (js_toString (load_best (storage w)) @ '' Moves'') else None)"
proof -
  from reachable_world_inv [OF assms(1)] have "bestMoves (stats w) = load_best (storage w)"
    by (simp add: world_inv_def score_ok_def)
  with assms(2) show ?thesis
    by (simp add: render_overlay_def shows_best_def)
qed

theorem start_screen_shows_best_witness:
  "render_overlay (gameState (run (init_world None []) (perfect_game @ [PlayAgainClick])))
                  (stats (run (init_world None []) (perfect_game @ [PlayAgainClick]))) =
     StartOverlay (Some (js_toString (Num 8) @ '' Moves''))"
proof -
  let ?w = "run (init_world None []) (perfect_game @ [PlayAgainClick])"
  have g: "gameState ?w = START" and s: "storage ?w = Some ''8''"
    by code_simp+
  have "load_best (Some ''8'') = Num 8"
    by code_simp
  with start_screen_shows_best [OF reachable_init_run g] s show ?thesis
    by simp
qed

section \<open>Phases, callbacks and the store\<close>

text \<open>
  C23. A phase change the current screen does not offer is ignored and leaves the state
  unchanged: \<^verbatim>\<open>Start Game\<close> outside the start screen, \<^verbatim>\<open>Play Again\<close> outside the
  game-over screen.
\<close>

theorem invalid_transitions_ignored:
  assumes "reachable w"
  shows "(gameState w \<noteq> START \<longrightarrow> step w StartClick = w) \<and>
         (gameState w \<noteq> GAME_OVER \<longrightarrow> step w PlayAgainClick = w)"
proof -
  have id: "settle w = w"
    by (rule settle_world_inv_id [OF reachable_world_inv [OF assms]])
  have "gameState w \<noteq> START \<Longrightarrow> start_click w = w"
    by (cases "gameState w") (simp_all add: start_click_def has_start_button_def screen_of_def)
  moreover have "gameState w \<noteq> GAME_OVER \<Longrightarrow> play_again_click w = w"
    by (cases "gameState w") (simp_all add: play_again_click_def has_play_again_button_def screen_of_def)
  ultimately show ?thesis
    using id by (simp add: step_def)
qed

theorem invalid_transitions_ignored_witness:
  "step (run (init_world None []) [StartClick]) StartClick = run (init_world None []) [StartClick] \<and>
   step (run (init_world None []) [StartClick]) PlayAgainClick = run (init_world None []) [StartClick]"
proof -
  have "gameState (run (init_world None []) [StartClick]) = PLAYING"
    by code_simp
  with invalid_transitions_ignored [OF reachable_init_run, of None "[]" "[StartClick]"] show ?thesis
    by simp
qed

text \<open>
  C24. No callback outlives the game: outside play no settle callback is pending and the
  board is not locked, so a callback can never fire on the board of a later game.
\<close>

theorem no_callback_outside_play:
  assumes "reachable w" "gameState w \<noteq> PLAYING"
  shows "pending w = [] \<and> \<not> isProcessing (engine w)"
proof -
  have inv: "world_inv w" by (rule reachable_world_inv [OF assms(1)])
  show ?thesis
  proof (cases "gameState w")
    case START
    with inv show ?thesis by (simp add: world_inv_defs)
  next
    case GAME_OVER
    with inv_game_over [OF inv] show ?thesis by simp
  qed (use assms(2) in simp)
qed

theorem no_callback_outside_play_witness:
  "pending (run (init_world None []) perfect_game) = []"
proof -
  have "gameState (run (init_world None []) perfect_game) \<noteq> PLAYING"
    by code_simp
  from no_callback_outside_play [OF reachable_init_run this] show ?thesis
    by simp
qed

text \<open>
  C25. An unparsable stored best score disables the best score for good: \<^verbatim>\<open>parseInt\<close>
  gives \<open>NaN\<close>, every \<^verbatim>\<open><\<close> with \<open>NaN\<close> is false, so no finished game ever
  replaces it and the store is never rewritten.
\<close>

theorem corrupt_best_sticks:
  assumes "s \<noteq> []" "parseInt10 s = NaN"
  shows "bestMoves (stats (run (init_world (Some s) r) evs)) = NaN \<and>
         storage (run (init_world (Some s) r) evs) = Some s"
proof -
  have "bestMoves (stats (init_world (Some s) r)) = NaN"
    using assms by (simp add: init_world_eq initial_stats_def load_best_def)
  from run_best_NaN [OF this] show ?thesis
    by (simp add: init_world_eq)
qed

theorem corrupt_best_sticks_witness:
  "gameState (run (init_world (Some ''abc'') []) perfect_game) = GAME_OVER \<and>
   bestMoves (stats (run (init_world (Some ''abc'') []) perfect_game)) = NaN \<and>
   storage (run (init_world (Some ''abc'') []) perfect_game) = Some ''abc''"
proof -
  have g: "gameState (run (init_world (Some ''abc'') []) perfect_game) = GAME_OVER"
    by code_simp
  have "parseInt10 ''abc'' = NaN"
    by code_simp
  with g corrupt_best_sticks [of "''abc''" "[]" perfect_game] show ?thesis
    by simp
qed

section \<open>The grid and the settle callbacks\<close>

text \<open>
  C27. What the grid shows is fair and well keyed: at most two cards show their face
  without being faded out (the pair in hand), every faded (matched) card is turned face
  up, and the React keys of the cards are distinct.
\<close>

theorem grid_shows_at_most_two:
  assumes "reachable w" "render_grid (gameState w) (engine w) = Some vs"
  shows "length (filter (\<lambda>v. face_up v \<and> \<not> faded v) vs) \<le> 2 \<and>
         (\<forall>v\<in>set vs. faded v \<longrightarrow> face_up v) \<and> distinct (map view_key vs)"
proof -
  have inv: "world_inv w" by (rule reachable_world_inv [OF assms(1)])
  from assms(2) have vs: "vs = map (\<lambda>card. \<lparr>view_key = card_id card, face_up = isFlipped card,
                              faded = isMatched card, front = emoji card\<rparr>) (cards (engine w))"
    and nst: "\<not> (gameState w = START \<and> cards (engine w) = [])"
    by (auto simp: render_grid_def split: if_splits)
  have "gameState w \<noteq> START"
    using nst inv by (auto simp: world_inv_defs)
  note dealt = inv_dealt [OF inv this]
  from inv have sel: "selection_inv (cards (engine w)) (flippedIds (engine w))"
    by (simp add: world_inv_defs)
  have "length (filter (\<lambda>c. isFlipped c \<and> \<not> isMatched c) (cards (engine w))) \<le> 2"
    using selection_count [OF sel dealt(1)] sel by (simp add: selection_inv_def)
  moreover have "(\<forall>v\<in>set vs. faded v \<longrightarrow> face_up v)"
    using sel by (auto simp: vs selection_inv_def)
  moreover have "distinct (map view_key vs)"
    using dealt(1) by (simp add: vs comp_def)
  ultimately show ?thesis
    by (simp add: vs comp_def filter_map)
qed

theorem grid_shows_at_most_two_witness:
  "length (filter (\<lambda>v. face_up v \<and> \<not> faded v)
     (the (render_grid (gameState (run (init_world None []) [StartClick, CardClick 0, CardClick 1]))
                       (engine (run (init_world None []) [StartClick, CardClick 0, CardClick 1]))))) \<le> 2"
proof -
  let ?w = "run (init_world None []) [StartClick, CardClick 0, CardClick 1]"
  have "render_grid (gameState ?w) (engine ?w) = Some (the (render_grid (gameState ?w) (engine ?w)))"
    by code_simp
  from grid_shows_at_most_two [OF reachable_init_run this] show ?thesis
    by blast
qed

text \<open>
  C28. Resolving a pair: while the board is locked on the selected cards \<open>i\<close> and
  \<open>j\<close>, the pending callback has the match delay (500 ms) if their emojis agree and
  \<open>FLIP_DELAY_MS\<close> otherwise; when it fires, both cards become matched and stay face up
  if the emojis agree, or turn face down otherwise, every other card is unchanged, the
  selection is cleared, the lock released, and the move count is not touched.
\<close>

theorem pair_resolution:
  assumes "reachable w" "isProcessing (engine w)"
    and "i < length (cards (engine w))" "j < length (cards (engine w))"
    and "flippedIds (engine w) = [card_id (cards (engine w) ! i), card_id (cards (engine w) ! j)]"
  defines "cs \<equiv> cards (engine w)" and "w' \<equiv> step w (TimeoutFires 0)"
  shows "timeout_delay (hd (pending w)) =
           (if emoji (cs ! i) = emoji (cs ! j) then 500 else FLIP_DELAY_MS) \<and>
         length (cards (engine w')) = length cs \<and>
         (\<forall>k < length cs. cards (engine w') ! k =
            (if k = i \<or> k = j
             then (if emoji (cs ! i) = emoji (cs ! j)
                   then (cs ! k)\<lparr>isMatched := True, isFlipped := True\<rparr>
                   else (cs ! k)\<lparr>isFlipped := False\<rparr>)
             else cs ! k)) \<and>
         flippedIds (engine w') = [] \<and> \<not> isProcessing (engine w') \<and> pending w' = [] \<and>
         moves (stats w') = moves (stats w)"
proof -
  have inv: "world_inv w" by (rule reachable_world_inv [OF assms(1)])
  note at = inv_locked_at [OF inv assms(2-5), folded cs_def]
  have play: "gameState w = PLAYING" and dist: "distinct (map card_id cs)" and ne: "cs \<noteq> []"
    and pend: "pending w = [checkForMatch (card_id (cs ! i)) (card_id (cs ! j)) cs]"
    using at by simp_all
  have cab: "cs ! i \<in> set cs" "cs ! j \<in> set cs"
    using assms(3,4) by (simp_all add: cs_def)
  define ca where "ca = cs ! i"
  define cb where "cb = cs ! j"
  note eqa = ca_def and eqb = cb_def
  note cab = cab [folded ca_def cb_def] and pend = pend [folded ca_def cb_def]
  have idx: "card_id (cs ! k) = card_id (cs ! i) \<longleftrightarrow> k = i"
    "card_id (cs ! k) = card_id (cs ! j) \<longleftrightarrow> k = j" if "k < length cs" for k
    using that assms(3,4) distinct_map_nth_eq_iff [OF dist] by (simp_all add: cs_def)
  note fr = fire_resolves [OF dist [unfolded cs_def] cab [unfolded cs_def] pend [unfolded cs_def]]
  have settle_id: "engine (settle (fire 0 w)) = engine (fire 0 w)"
    using fr play ne by (intro settle_engine_dealt) (simp_all add: cs_def split: if_splits)
  have "timeout_delay (hd (pending w)) =
           (if emoji (cs ! i) = emoji (cs ! j) then 500 else FLIP_DELAY_MS)"
    using pend checkForMatch_found [OF dist cab] eqa eqb by simp
  moreover have "\<forall>k < length cs. cards (engine w') ! k =
            (if k = i \<or> k = j
             then (if emoji (cs ! i) = emoji (cs ! j)
                   then (cs ! k)\<lparr>isMatched := True, isFlipped := True\<rparr>
                   else (cs ! k)\<lparr>isFlipped := False\<rparr>)
             else cs ! k)"
    using fr settle_id idx eqa eqb by (auto simp: w'_def step_def cs_def)
  moreover have "length (cards (engine w')) = length cs" "flippedIds (engine w') = []"
    "\<not> isProcessing (engine w')" "pending w' = []" "moves (stats w') = moves (stats w)"
    using fr settle_id by (simp_all add: w'_def step_def cs_def fire_stats split: if_splits)
  ultimately show ?thesis
    by blast
qed

theorem pair_resolution_witness:
  "\<not> isFlipped (cards (engine (run (init_world None []) [StartClick, CardClick 0, CardClick 2, TimeoutFires 0])) ! 0) \<and>
   moves (stats (run (init_world None []) [StartClick, CardClick 0, CardClick 2, TimeoutFires 0])) = 1"
proof -
  let ?w = "run (init_world None []) [StartClick, CardClick 0, CardClick 2]"
  have lk: "isProcessing (engine ?w)" and l: "0 < length (cards (engine ?w))" "2 < length (cards (engine ?w))"
    and f: "flippedIds (engine ?w) = [card_id (cards (engine ?w) ! 0), card_id (cards (engine ?w) ! 2)]"
    and d: "emoji (cards (engine ?w) ! 0) \<noteq> emoji (cards (engine ?w) ! 2)"
    and m: "moves (stats ?w) = 1"
    by code_simp+
  have r: "run (init_world None []) [StartClick, CardClick 0, CardClick 2, TimeoutFires 0] = step ?w (TimeoutFires 0)"
    by (simp add: run_def)
  note res = pair_resolution [OF reachable_init_run lk l f]
  from res have "cards (engine (step ?w (TimeoutFires 0))) ! 0 =
      (if emoji (cards (engine ?w) ! 0) = emoji (cards (engine ?w) ! 2)
       then (cards (engine ?w) ! 0)\<lparr>isMatched := True, isFlipped := True\<rparr>
       else (cards (engine ?w) ! 0)\<lparr>isFlipped := False\<rparr>)"
    using l(1) by auto
  with d have "\<not> isFlipped (cards (engine (step ?w (TimeoutFires 0))) ! 0)"
    by simp
  moreover from res m have "moves (stats (step ?w (TimeoutFires 0))) = 1"
    by simp
  ultimately show ?thesis
    unfolding r ..
qed

text \<open>
  C29. The best score never gets worse: every event leaves it unchanged or replaces it
  by a strictly smaller number (it is never reset, not even by Play Again).
\<close>

theorem best_never_increases:
  assumes "reachable w"
  shows "bestMoves (stats (step w ev)) = bestMoves (stats w) \<or>
         js_less (bestMoves (stats (step w ev))) (bestMoves (stats w))"
  using step_best [OF reachable_world_inv [OF assms], of ev] by (simp split: if_splits)

theorem best_never_increases_witness:
  "js_less (bestMoves (stats (step (run (init_world None []) (butlast perfect_game)) (last perfect_game))))
           (bestMoves (stats (run (init_world None []) (butlast perfect_game))))"
proof -
  let ?w = "run (init_world None []) (butlast perfect_game)"
  have "bestMoves (stats (step ?w (last perfect_game))) \<noteq> bestMoves (stats ?w)"
    by code_simp
  with best_never_increases [OF reachable_init_run, of None "[]" "butlast perfect_game" "last perfect_game"]
  show ?thesis
    by blast
qed

text \<open>
  C30. The lifetime of the interval under React 18's order: it is registered in every
  state in play, and outside play only on the game-over screen while the effects of the
  render that ended the game are still due. Once they run, the cleanup has cleared it,
  so no orphaned interval survives the game (spec, section 4.1, \<^verbatim>\<open>tick\<close>), except for
  that window.
\<close>

theorem interval_lifetime:
  "let s = arun (init_world stored r, False) aevs in
     (gameState (fst s) = PLAYING \<longrightarrow> interval (fst s)) \<and>
     (interval (fst s) \<longrightarrow> gameState (fst s) = PLAYING \<or> snd s \<and> gameState (fst s) = GAME_OVER)"
  using sim_interval [OF sim_arun [of stored r aevs]] by (simp add: Let_def)

theorem interval_lifetime_witness:
  "interval (fst (arun (init_world None [], False) [Ev StartClick]))"
proof -
  have "gameState (fst (arun (init_world None [], False) [Ev StartClick])) = PLAYING"
    by code_simp
  with interval_lifetime [of None "[]" "[Ev StartClick]"] show ?thesis
    by (simp add: Let_def)
qed

text \<open>
  C31. The counters are never negative, and the move count is at least the number of
  pairs matched so far (each completed attempt matches at most one pair).
\<close>

theorem counters_bounded:
  assumes "reachable w"
  shows "0 \<le> timer (stats w) \<and> 0 \<le> moves (stats w) \<and>
         int (length (filter isMatched (cards (engine w)))) \<le> 2 * moves (stats w)"
proof -
  from reachable_world_inv [OF assms]
  have "0 \<le> timer (stats w)"
    and m: "int (length (filter isMatched (cards (engine w)))) +
              (if isProcessing (engine w) then 2 else 0) \<le> 2 * moves (stats w)"
    by (simp_all add: world_inv_def core_inv_def moves_ok_def)
  moreover from m have "int (length (filter isMatched (cards (engine w)))) \<le> 2 * moves (stats w)"
    by (simp split: if_splits)
  ultimately show ?thesis
    by simp
qed

theorem counters_bounded_witness:
  "0 \<le> moves (stats (run (init_world None []) [StartClick, CardClick 0, CardClick 8, TimeoutFires 0])) \<and>
   2 \<le> 2 * moves (stats (run (init_world None []) [StartClick, CardClick 0, CardClick 8, TimeoutFires 0]))"
proof -
  let ?w = "run (init_world None []) [StartClick, CardClick 0, CardClick 8, TimeoutFires 0]"
  have "length (filter isMatched (cards (engine ?w))) = 2"
    by code_simp
  with counters_bounded [OF reachable_init_run, of None "[]" "[StartClick, CardClick 0, CardClick 8, TimeoutFires 0]"]
  show ?thesis
    by simp
qed


section \<open>The order React runs the code in\<close>

text \<open>
  C32. Every state shown once React has run the pending effects satisfies the whole
  invariant of the atomic semantics (board shape, selection, lock and pending callback,
  completion, matched pairs, counters, best score and store, interval), whatever
  interleaving of events and effect flushes led there: the invariant properties above
  hold under React 18's real order too.
\<close>

theorem effects_flushed_keep_invariant:
  "world_inv (flush (arun (init_world stored r, False) aevs))"
proof -
  obtain t where "reachable (run (init_world stored r) (events_of aevs))"
    and "flush (arun (init_world stored r, False) aevs) = set_timer t (run (init_world stored r) (events_of aevs))"
    and "lag t (run (init_world stored r) (events_of aevs))"
    using sim_arun [of stored r aevs] by (auto simp: sim_def)
  then show ?thesis
    using world_inv_set_timer [OF reachable_world_inv] by metis
qed

theorem effects_flushed_keep_invariant_witness:
  "world_inv (flush (arun (init_world None [], False) [Ev StartClick, Ev TimerTick]))"
  by (rule effects_flushed_keep_invariant)

text \<open>
  C33. Under any interleaving of events and effect flushes the timer callbacks allow, the
  application ends up, once the pending effects have run, in the world the atomic
  semantics reaches on the same events, except for the clock; the clock agrees too
  unless the game is over, and then it can only be ahead.
\<close>

theorem deferred_effects_refine_atomic:
  "\<exists>t. flush (arun (init_world stored r, False) aevs) =
         set_timer t (run (init_world stored r) (events_of aevs)) \<and>
       (t = timer (stats (run (init_world stored r) (events_of aevs))) \<or>
        gameState (run (init_world stored r) (events_of aevs)) = GAME_OVER \<and>
        timer (stats (run (init_world stored r) (events_of aevs))) \<le> t)"
  using sim_arun [of stored r aevs] by (auto simp: sim_def lag_def)

text \<open>
  C34. Every callback that ends a game opens a window in which the clock still runs:
  right after it the effects of its render are due and the interval is still registered,
  so a tick then adds a second to the time the game-over screen shows, while the atomic
  semantics, where the effects run at once, keeps the finished game's clock still.
\<close>

theorem game_end_opens_tick_window:
  assumes "gameState (fst (arun (init_world stored r, False) aevs)) = PLAYING"
    and "gameState (fst (astep (arun (init_world stored r, False) aevs) (Ev (TimeoutFires k)))) = GAME_OVER"
  defines "s' \<equiv> astep (arun (init_world stored r, False) aevs) (Ev (TimeoutFires k))"
    and "v' \<equiv> run (init_world stored r) (events_of aevs @ [TimeoutFires k])"
  shows "snd s' \<and> interval (fst s') \<and>
         timer (stats (flush (astep s' (Ev TimerTick)))) = timer (stats (flush s')) + 1 \<and>
         gameState v' = GAME_OVER \<and> step v' TimerTick = v'"
proof -
  let ?s = "arun (init_world stored r, False) aevs"
  have sim: "sim ?s (run (init_world stored r) (events_of aevs))"
    by (rule sim_arun)
  have iv: "interval (fst ?s)"
    by (rule sim_interval(1) [OF sim assms(1)])
  have s'eq: "s' = (fire k (fst ?s), True)"
    by (simp add: s'_def)
  have sim': "sim s' v'"
    using sim_astep [OF sim, of "Ev (TimeoutFires k)"] by (simp add: s'_def v'_def run_def step_def)
  then have reach: "reachable v'"
    by (simp add: sim_def)
  have "gameState (flush s') = GAME_OVER"
    using assms(2) by (simp add: s'_def flush_def)
  with sim_phase [OF sim'] have g: "gameState v' = GAME_OVER"
    by simp
  have "step v' TimerTick = v'"
    using step_tick(1) [OF reachable_world_inv [OF reach]] g by simp
  with s'eq iv g show ?thesis
    by (simp add: astep_tick flush_def settle_set_timer tick_def)
qed

theorem game_end_opens_tick_window_witness:
  "timer (stats (flush (astep (astep (arun (init_world None [], False) (eager (butlast perfect_game)))
      (Ev (TimeoutFires 0))) (Ev TimerTick)))) = 1"
proof -
  let ?s = "arun (init_world None [], False) (eager (butlast perfect_game))"
  have h1: "gameState (fst ?s) = PLAYING"
    and h2: "gameState (fst (astep ?s (Ev (TimeoutFires 0)))) = GAME_OVER"
    and h3: "timer (stats (flush (astep ?s (Ev (TimeoutFires 0))))) = 0"
    by code_simp+
  note th = game_end_opens_tick_window [of None "[]" "eager (butlast perfect_game)" 0, OF h1 h2]
  have "timer (stats (flush (astep (astep ?s (Ev (TimeoutFires 0))) (Ev TimerTick)))) =
        timer (stats (flush (astep ?s (Ev (TimeoutFires 0))))) + 1"
    by (rule conjunct1 [OF conjunct2 [OF conjunct2 [OF th]]])
  with h3 show ?thesis
    by linarith
qed

text \<open>
  C35. Every event adds at most one to the move count and to the clock, under the
  atomic and under the deferred schedule, so both stay within the integers JavaScript
  numbers represent exactly for any run shorter than \<open>2^53\<close> events.
\<close>

theorem counters_bounded_by_events:
  "moves (stats (run (init_world stored r) evs)) \<le> int (length evs) \<and>
   timer (stats (run (init_world stored r) evs)) \<le> int (length evs) \<and>
   timer (stats (flush (arun (init_world stored r, False) aevs))) \<le> int (length aevs)"
  using run_counters_le [OF reachable.init, of stored r evs] arun_clock [of stored r aevs]
  by (simp add: init_world_eq initial_stats_def)


text \<open>
  C36. The store is written only by the event that finishes a game, and then holds that
  game's move count: on the game-over screen nothing writes it again, so a finish
  compares and writes at most once.
\<close>

theorem store_written_once_per_finish:
  assumes "reachable w" "storage (step w ev) \<noteq> storage w"
  shows "gameState w \<noteq> GAME_OVER \<and> gameState (step w ev) = GAME_OVER \<and>
         storage (step w ev) = Some (string_of_int (moves (stats (step w ev))))"
proof -
  note wr = step_storage_write [OF assms(2)]
  have "bestMoves (stats (step w ev)) \<noteq> bestMoves (stats w)"
    using wr(2,4) by (cases "bestMoves (stats w)") auto
  then have "gameState w \<noteq> GAME_OVER"
    using step_best [OF reachable_world_inv [OF assms(1)], of ev] by (auto split: if_splits)
  with wr(1,3) show ?thesis
    by simp
qed

theorem store_written_once_per_finish_witness:
  "storage (step (run (init_world None []) (butlast perfect_game)) (TimeoutFires 0)) = Some ''8''"
proof -
  let ?w = "run (init_world None []) (butlast perfect_game)"
  have "storage (step ?w (TimeoutFires 0)) = Some ''8'' \<and> storage ?w = None"
    by code_simp
  with store_written_once_per_finish [OF reachable_init_run, of None "[]" "butlast perfect_game" "TimeoutFires 0"]
  show ?thesis by simp
qed


text \<open>
  C37. The application follows the phase machine of the specification: whenever an
  event changes the phase, the change is start (START to PLAYING by the start button),
  finish (PLAYING to GAME_OVER by a settle callback) or reset (GAME_OVER to START by
  Play Again).
\<close>

theorem phase_changes_follow_spec:
  assumes "reachable w" "gameState (step w ev) \<noteq> gameState w"
  shows "phase_move (gameState w) ev (gameState (step w ev))"
  using step_phase [OF reachable_world_inv [OF assms(1)] assms(2)] .

theorem phase_changes_follow_spec_witness:
  "phase_move (gameState (run (init_world None []) (butlast perfect_game))) (TimeoutFires 0)
     (gameState (step (run (init_world None []) (butlast perfect_game)) (TimeoutFires 0)))"
proof -
  let ?w = "run (init_world None []) (butlast perfect_game)"
  have "gameState (step ?w (TimeoutFires 0)) = GAME_OVER \<and> gameState ?w = PLAYING"
    by code_simp
  then show ?thesis
    using phase_changes_follow_spec [OF reachable_init_run, of None "[]" "butlast perfect_game" "TimeoutFires 0"]
    by simp
qed


text \<open>
  C38. The best score is the minimum the specification asks for (section 8): from a
  stored number, after any run it is the least of that number and the move counts at
  which games were finished. With nothing stored the starting number is the 9999
  sentinel.
\<close>

theorem best_is_min_of_finishes:
  assumes "load_best stored = Num b"
  shows "bestMoves (stats (run (init_world stored r) evs)) =
           Num (Min (insert b (set (finish_moves (init_world stored r) evs))))"
  using run_best [OF reachable.init, of stored r evs] assms
  by (simp add: init_world_eq initial_stats_def best_of_Num)

theorem best_is_min_of_finishes_witness:
  "bestMoves (stats (run (init_world None []) (perfect_game @ PlayAgainClick # one_miss_game))) = Num 8"
proof -
  have "finish_moves (init_world None []) (perfect_game @ PlayAgainClick # one_miss_game) = [8, 9]"
    by code_simp
  moreover have "load_best None = Num 9999"
    by code_simp
  ultimately show ?thesis
    using best_is_min_of_finishes [of None 9999 "[]" "perfect_game @ PlayAgainClick # one_miss_game"]
    by simp
qed

text \<open>
  C39. A stored best of at most \<open>PAIRS_COUNT\<close> moves is never replaced: every game
  takes at least that many moves. The specification's scenario C (a prior best of 5,
  then a game in 3 moves) cannot occur on this board, and a best below 8 read from the
  store stays for good.
\<close>

theorem low_stored_best_never_beaten:
  assumes "load_best stored = Num b" "b \<le> int PAIRS_COUNT"
  shows "bestMoves (stats (run (init_world stored r) evs)) = Num b"
proof -
  have "\<forall>m\<in>set (finish_moves (init_world stored r) evs). b \<le> m"
    using finish_moves_bound [OF reachable.init] assms(2) by fastforce
  then have "Min (insert b (set (finish_moves (init_world stored r) evs))) = b"
    by (intro Min_eqI) auto
  with run_best [OF reachable.init, of stored r evs] assms(1) show ?thesis
    by (simp add: init_world_eq initial_stats_def best_of_Num)
qed

theorem low_stored_best_never_beaten_witness:
  "bestMoves (stats (run (init_world (Some ''5'') []) perfect_game)) = Num 5"
proof -
  have "load_best (Some ''5'') = Num 5"
    by code_simp
  then show ?thesis
    using low_stored_best_never_beaten [of "Some ''5''" 5 "[]" perfect_game] by simp
qed


text \<open>
  C40. Progress survives React's deferred effects: whatever interleaving of events and
  effect flushes has happened, a game in play can still be finished within
  \<open>3 * PAIRS_COUNT + 3\<close> further events, each callback followed by its effects.
\<close>

theorem deferred_game_can_be_finished:
  assumes "gameState (flush (arun (init_world stored r, False) aevs)) = PLAYING"
  shows "\<exists>evs. length evs \<le> 3 * PAIRS_COUNT + 3 \<and>
           gameState (flush (arun (init_world stored r, False) (aevs @ eager evs))) = GAME_OVER"
proof -
  let ?s = "arun (init_world stored r, False) aevs"
  let ?v = "run (init_world stored r) (events_of aevs)"
  have sim: "sim ?s ?v" by (rule sim_arun)
  then have "reachable ?v" and "gameState ?v = PLAYING"
    using assms sim_phase [OF sim] by (simp_all add: sim_def)
  then obtain evs where evs: "gameState (run ?v evs) = GAME_OVER" "length evs \<le> 3 * PAIRS_COUNT + 3"
    using solve_finishes [OF reachable_world_inv] by blast
  have "arun (init_world stored r, False) (aevs @ eager evs) = arun ?s (eager evs)"
    by (simp add: arun_def)
  with sim_phase [OF sim_arun_from [OF sim, of "eager evs"]] evs show ?thesis
    by auto
qed

theorem deferred_game_can_be_finished_witness:
  "\<exists>evs. length evs \<le> 27 \<and>
     gameState (flush (arun (init_world None [], False) ([Ev StartClick, Ev TimerTick] @ eager evs))) = GAME_OVER"
proof -
  have "gameState (flush (arun (init_world None [], False) [Ev StartClick, Ev TimerTick])) = PLAYING"
    by code_simp
  from deferred_game_can_be_finished [OF this] show ?thesis
    by simp
qed

end
